theory Spec2Isabelle
  imports Complex_Main "HOL-Library.AList"
begin

text \<open>
  The program fetches the character records of a game-data API and writes a simplified,
  normalized JSON file for each character. This theory embeds the pure functions of its
  transformation pipeline (the key normalizer with its tag stripper, the stat block
  filter, the skill level projector and the param-stat converter, the slugifier and the
  two output namers) and proves what the specification says about them.
\<close>

section \<open>Strings\<close>

text \<open>
  A string of the program is a sequence of UTF-16 code units; a code unit is a natural
  number. \<open>str\<close> turns a literal of the source into its code units (the literals of
  the source are ASCII).
\<close>

type_synonym jsstring = "nat list"

definition str :: "string \<Rightarrow> jsstring" where
  "str s = map of_char s"

text \<open>The character classes of the regular expressions of the source.\<close>

definition is_digit :: "nat \<Rightarrow> bool" where
  "is_digit c = (48 \<le> c \<and> c \<le> 57)"

definition is_upper :: "nat \<Rightarrow> bool" where
  "is_upper c = (65 \<le> c \<and> c \<le> 90)"

definition is_lower :: "nat \<Rightarrow> bool" where
  "is_lower c = (97 \<le> c \<and> c \<le> 122)"

text \<open>\<^verbatim>\<open>[a-zA-Z0-9]\<close>\<close>

definition is_alnum :: "nat \<Rightarrow> bool" where
  "is_alnum c = (is_lower c \<or> is_upper c \<or> is_digit c)"

text \<open>\<^verbatim>\<open>[a-z0-9]\<close>\<close>

definition is_lower_alnum :: "nat \<Rightarrow> bool" where
  "is_lower_alnum c = (is_lower c \<or> is_digit c)"

text \<open>
  The line terminators LF, CR, U+2028 and U+2029: the code units that \<^verbatim>\<open>.\<close> does
  not match.
\<close>

definition is_line_terminator :: "nat \<Rightarrow> bool" where
  "is_line_terminator c = (c = 10 \<or> c = 13 \<or> c = 8232 \<or> c = 8233)"

text \<open>
  \<^verbatim>\<open>\s\<close>, and what \<^verbatim>\<open>trim\<close> removes: TAB, LF, VT, FF, CR, SPACE, U+00A0, U+1680,
  U+2000 to U+200A, U+2028, U+2029, U+202F, U+205F, U+3000 and U+FEFF.
\<close>

definition is_space :: "nat \<Rightarrow> bool" where
  "is_space c = ((9 \<le> c \<and> c \<le> 13) \<or> c = 32 \<or> c = 160 \<or> c = 5760
     \<or> (8192 \<le> c \<and> c \<le> 8202) \<or> c = 8232 \<or> c = 8233 \<or> c = 8239 \<or> c = 8287
     \<or> c = 12288 \<or> c = 65279)"

text \<open>
  Case conversion. The model gives the conversion of the ASCII letters, and the upper case
  of U+0149 (LATIN SMALL LETTER N PRECEDED BY APOSTROPHE), which Unicode's special casing
  expands to the two code units U+02BC U+004E. The other code units are left as they are:
  the engine's tables for the cased letters beyond ASCII are not reproduced, and no
  statement below relies on them.
\<close>

definition charToUpper :: "nat \<Rightarrow> jsstring" where
  "charToUpper c = (if is_lower c then [c - 32] else if c = 329 then [700, 78] else [c])"

definition charToLower :: "nat \<Rightarrow> nat" where
  "charToLower c = (if is_upper c then c + 32 else c)"

definition toUpperCase :: "jsstring \<Rightarrow> jsstring" where
  "toUpperCase s = concat (map charToUpper s)"

definition toLowerCase :: "jsstring \<Rightarrow> jsstring" where
  "toLowerCase s = map charToLower s"

definition startsWith :: "jsstring \<Rightarrow> jsstring \<Rightarrow> bool" where
  "startsWith s p = (take (length p) s = p)"

definition endsWith :: "jsstring \<Rightarrow> jsstring \<Rightarrow> bool" where
  "endsWith s p = (length p \<le> length s \<and> drop (length s - length p) s = p)"

fun includes_js :: "jsstring \<Rightarrow> jsstring \<Rightarrow> bool" where
  "includes_js [] p = (p = [])"
| "includes_js (c # cs) p = (startsWith (c # cs) p \<or> includes_js cs p)"

definition trim :: "jsstring \<Rightarrow> jsstring" where
  "trim s = rev (dropWhile is_space (rev (dropWhile is_space s)))"

text \<open>The decimal digits of a natural number: \<^verbatim>\<open>toString\<close> on a skill level.\<close>

fun toString :: "nat \<Rightarrow> jsstring" where
  "toString n = (if n < 10 then [48 + n] else toString (n div 10) @ [48 + n mod 10])"

section \<open>Values\<close>

subsection \<open>Numbers\<close>

text \<open>
  A number of the engine is an IEEE 754 double: a finite value, one of the two zeros, one of
  the two infinities, or NaN. A finite value is the rational it denotes (\<open>Num 0\<close> is the
  positive zero); the doubles are those \<open>Num q\<close> that \<open>round_double q\<close> leaves unchanged, and
  every operation below returns a double. What \<^verbatim>\<open>JSON.parse\<close> returns for a decimal literal
  that denotes the rational \<open>q\<close> is \<open>round_double q\<close>.
\<close>

datatype number = Num rat | NegZero | PosInfinity | NegInfinity | NaN

text \<open>The position of the leading bit of a positive integer.\<close>

function log2_floor :: "int \<Rightarrow> int" where
  "log2_floor n = (if n < 2 then 0 else 1 + log2_floor (n div 2))"
  by pat_completeness auto
termination
  by (relation "measure nat") auto

definition pow2 :: "int \<Rightarrow> rat" where
  "pow2 e = (if 0 \<le> e then 2 ^ nat e else 1 / 2 ^ nat (- e))"

text \<open>The exponent \<open>e\<close> of a positive rational \<open>a\<close>: \<open>2 ^ e \<le> a < 2 ^ (e + 1)\<close>.\<close>

definition exponent_of :: "rat \<Rightarrow> int" where
  "exponent_of a =
     (if 1 \<le> a then log2_floor \<lfloor>a\<rfloor>
      else - (1 + log2_floor (\<lceil>1 / a\<rceil> - 1)))"

definition round_half_even :: "rat \<Rightarrow> int" where
  "round_half_even x =
     (let f = \<lfloor>x\<rfloor>; r = x - of_int f
      in if r < 1 / 2 then f else if 1 / 2 < r then f + 1 else if even f then f else f + 1)"

text \<open>
  Rounding to the nearest double, ties to the even significand. The significand has 53
  bits; below the exponent \<open>- 1022\<close> the spacing of the doubles stays \<open>2 ^ (- 1074)\<close> (the
  subnormal numbers), and a result that rounds to \<open>2 ^ 1024\<close> or more is an infinity. A
  nonzero rational that rounds to zero keeps its sign.
\<close>

definition round_double :: "rat \<Rightarrow> number" where
  "round_double q =
     (if q = 0 then Num 0
      else
        let e = max (exponent_of \<bar>q\<bar>) (- 1022);
            quantum = pow2 (e - 52);
            m = round_half_even (\<bar>q\<bar> / quantum);
            r = of_int m * quantum
        in if pow2 1024 \<le> r then (if 0 < q then PosInfinity else NegInfinity)
           else if m = 0 then (if 0 < q then Num 0 else NegZero)
           else Num (if 0 < q then r else - r))"

fun negative :: "number \<Rightarrow> bool" where
  "negative (Num q) = (q < 0)"
| "negative NegZero = True"
| "negative NegInfinity = True"
| "negative x = False"

fun is_zero :: "number \<Rightarrow> bool" where
  "is_zero (Num q) = (q = 0)"
| "is_zero NegZero = True"
| "is_zero x = False"

fun is_infinite :: "number \<Rightarrow> bool" where
  "is_infinite PosInfinity = True"
| "is_infinite NegInfinity = True"
| "is_infinite x = False"

fun value_of :: "number \<Rightarrow> rat" where
  "value_of (Num q) = q"
| "value_of x = 0"

definition signed_zero :: "bool \<Rightarrow> number" where
  "signed_zero neg = (if neg then NegZero else Num 0)"

definition signed_infinity :: "bool \<Rightarrow> number" where
  "signed_infinity neg = (if neg then NegInfinity else PosInfinity)"

text \<open>
  The operators \<^verbatim>\<open>+\<close>, \<^verbatim>\<open>-\<close>, \<^verbatim>\<open>*\<close> and \<^verbatim>\<open>/\<close> on numbers: the exact result, rounded once,
  with the special cases of the standard for NaN, the infinities and the zeros.
\<close>

fun fneg :: "number \<Rightarrow> number" where
  "fneg (Num q) = (if q = 0 then NegZero else Num (- q))"
| "fneg NegZero = Num 0"
| "fneg PosInfinity = NegInfinity"
| "fneg NegInfinity = PosInfinity"
| "fneg NaN = NaN"

definition fadd :: "number \<Rightarrow> number \<Rightarrow> number" where
  "fadd a b =
     (if a = NaN \<or> b = NaN then NaN
      else if is_infinite a then (if is_infinite b \<and> a \<noteq> b then NaN else a)
      else if is_infinite b then b
      else if is_zero a \<and> is_zero b then signed_zero (negative a \<and> negative b)
      else if value_of a + value_of b = 0 then Num 0
      else round_double (value_of a + value_of b))"

definition fsub :: "number \<Rightarrow> number \<Rightarrow> number" where
  "fsub a b = fadd a (fneg b)"

definition fmul :: "number \<Rightarrow> number \<Rightarrow> number" where
  "fmul a b =
     (if a = NaN \<or> b = NaN then NaN
      else if is_infinite a \<or> is_infinite b
      then (if is_zero a \<or> is_zero b then NaN else signed_infinity (negative a \<noteq> negative b))
      else if is_zero a \<or> is_zero b then signed_zero (negative a \<noteq> negative b)
      else round_double (value_of a * value_of b))"

definition fdiv :: "number \<Rightarrow> number \<Rightarrow> number" where
  "fdiv a b =
     (if a = NaN \<or> b = NaN then NaN
      else if is_infinite a
      then (if is_infinite b then NaN else signed_infinity (negative a \<noteq> negative b))
      else if is_infinite b then signed_zero (negative a \<noteq> negative b)
      else if is_zero b
      then (if is_zero a then NaN else signed_infinity (negative a \<noteq> negative b))
      else if is_zero a then signed_zero (negative a \<noteq> negative b)
      else round_double (value_of a / value_of b))"

subsection \<open>JSON values\<close>

text \<open>
  The values the program handles are what \<^verbatim>\<open>JSON.parse\<close> returns, and \<^verbatim>\<open>undefined\<close>.
  An object is the list of its own properties, in the order of insertion (the engine
  lists the keys that are array indices first; no statement below depends on the order of
  the entries).
\<close>

datatype json =
    JUndefined
  | JNull
  | JBool bool
  | JNumber number
  | JString jsstring
  | JArray "json list"
  | JObject "(jsstring \<times> json) list"

type_synonym RawCharacter = "(jsstring \<times> json) list"

text \<open>Reading a property: \<^verbatim>\<open>undefined\<close> when the object has no such property.\<close>

definition obj_get :: "jsstring \<Rightarrow> RawCharacter \<Rightarrow> json" where
  "obj_get k obj = (case map_of obj k of Some v \<Rightarrow> v | None \<Rightarrow> JUndefined)"

text \<open>
  The assignment \<^verbatim>\<open>obj[k] = v\<close> on an object the program created as \<^verbatim>\<open>{}\<close>: the value of
  an existing property is replaced where it stands, a new property is added at the end.
  The key \<^verbatim>\<open>__proto__\<close> is the exception: under Node.js, as under every engine that has
  the accessor \<^verbatim>\<open>Object.prototype.__proto__\<close>, the assignment reaches the setter of that
  accessor, which changes the prototype (for an object or \<^verbatim>\<open>null\<close>) or does nothing, and the
  object gets no property of its own. (An object that \<^verbatim>\<open>JSON.parse\<close> returns can have the
  own property \<^verbatim>\<open>__proto__\<close>: the parser defines it without the setter.)
\<close>

definition assign :: "jsstring \<Rightarrow> json \<Rightarrow> RawCharacter \<Rightarrow> RawCharacter" where
  "assign k v obj = (if k = str ''__proto__'' then obj else AList.update k v obj)"

text \<open>\<^verbatim>\<open>typeof v === "number"\<close>, \<^verbatim>\<open>typeof v === "object"\<close> and the truth value of \<open>v\<close>.\<close>

fun is_number :: "json \<Rightarrow> bool" where
  "is_number (JNumber n) = True"
| "is_number v = False"

fun is_object :: "json \<Rightarrow> bool" where
  "is_object JNull = True"
| "is_object (JArray xs) = True"
| "is_object (JObject kvs) = True"
| "is_object v = False"

fun truthy :: "json \<Rightarrow> bool" where
  "truthy JUndefined = False"
| "truthy JNull = False"
| "truthy (JBool b) = b"
| "truthy (JNumber n) = (\<not> is_zero n \<and> n \<noteq> NaN)"
| "truthy (JString s) = (s \<noteq> [])"
| "truthy (JArray xs) = True"
| "truthy (JObject kvs) = True"

text \<open>\<^verbatim>\<open>a ?? b\<close>\<close>

definition nullish :: "json \<Rightarrow> json \<Rightarrow> json" where
  "nullish a b = (if a = JUndefined \<or> a = JNull then b else a)"

section \<open>The regular expressions\<close>

text \<open>
  \<^verbatim>\<open>/[^a-zA-Z0-9]+(.)/\<close> tried at the head of \<open>s\<close>: the captured code unit and what follows
  the match. The greedy \<^verbatim>\<open>+\<close> takes the whole run of code units outside
  \<^verbatim>\<open>[a-zA-Z0-9]\<close>. When a code unit follows the run, it is alphanumeric and \<^verbatim>\<open>.\<close> takes it.
  When the run ends the string, \<^verbatim>\<open>+\<close> gives code units back one at a time, and \<^verbatim>\<open>.\<close> takes
  the last code unit of the run that is not a line terminator, the first of the run apart
  (\<^verbatim>\<open>+\<close> keeps at least one): \<open>last_dot\<close> finds it in the run's tail.
\<close>

fun last_dot :: "jsstring \<Rightarrow> (nat \<times> jsstring) option" where
  "last_dot [] = None"
| "last_dot (c # cs) =
     (case last_dot cs of
        Some r \<Rightarrow> Some r
      | None \<Rightarrow> if is_line_terminator c then None else Some (c, cs))"

definition match_sep :: "jsstring \<Rightarrow> (nat \<times> jsstring) option" where
  "match_sep s =
     (case takeWhile (\<lambda>c. \<not> is_alnum c) s of
        [] \<Rightarrow> None
      | r # run \<Rightarrow>
          (case dropWhile (\<lambda>c. \<not> is_alnum c) s of
             d # rest \<Rightarrow> Some (d, rest)
           | [] \<Rightarrow> last_dot run))"

lemma last_dot_split: "last_dot cs = Some (d, rest) \<Longrightarrow> \<exists>pre. cs = pre @ d # rest"
proof (induction cs)
  case Nil
  then show ?case by simp
next
  case (Cons c cs)
  show ?case
  proof (cases "last_dot cs")
    case None
    with Cons.prems have "d = c" "rest = cs" by (auto split: if_splits)
    then show ?thesis by (intro exI [of _ "[]"]) simp
  next
    case (Some r)
    with Cons.prems have "last_dot cs = Some (d, rest)" by simp
    then obtain pre where "cs = pre @ d # rest" using Cons.IH by blast
    then show ?thesis by (intro exI [of _ "c # pre"]) simp
  qed
qed

lemma match_sep_shorter: "match_sep s = Some (d, rest) \<Longrightarrow> length rest < length s"
proof -
  assume m: "match_sep s = Some (d, rest)"
  let ?run = "takeWhile (\<lambda>c. \<not> is_alnum c) s"
  let ?tl = "dropWhile (\<lambda>c. \<not> is_alnum c) s"
  have s: "s = ?run @ ?tl" by simp
  show ?thesis
  proof (cases ?tl)
    case (Cons d' rest')
    with m have "d' = d" "rest' = rest" by (auto simp: match_sep_def split: list.splits)
    with Cons have "length ?tl = Suc (length rest)" by simp
    moreover have "length s = length ?run + length ?tl" by (subst s) (simp only: length_append)
    ultimately show ?thesis by simp
  next
    case Nil
    show ?thesis
    proof (cases ?run)
      case Nil
      with m show ?thesis by (simp add: match_sep_def)
    next
      case (Cons r run)
      with m \<open>?tl = []\<close> have l: "last_dot run = Some (d, rest)"
        by (simp add: match_sep_def del: dropWhile_eq_Nil_conv)
      from last_dot_split [OF l] obtain pre where "run = pre @ d # rest" by blast
      with Cons have "length ?run = Suc (length pre + Suc (length rest))" by simp
      moreover have "length ?run \<le> length s" by (rule length_takeWhile_le)
      ultimately show ?thesis by simp
    qed
  qed
qed

text \<open>
  \<^verbatim>\<open>s.replace(/[^a-zA-Z0-9]+(.)/g, (_, chr) => chr.toUpperCase())\<close>: the matches are
  looked for from left to right, each one after the end of the one before; a code unit
  where no match starts is copied.
\<close>

function replace_sep :: "jsstring \<Rightarrow> jsstring" where
  "replace_sep [] = []"
| "replace_sep (c # cs) =
     (case match_sep (c # cs) of
        Some (chr, rest) \<Rightarrow> toUpperCase [chr] @ replace_sep rest
      | None \<Rightarrow> c # replace_sep cs)"
  by pat_completeness auto
termination
  by (relation "measure length") (auto dest: match_sep_shorter)

text \<open>\<^verbatim>\<open>s.replace(/^[A-Z]/, (chr) => chr.toLowerCase())\<close>\<close>

fun lower_first :: "jsstring \<Rightarrow> jsstring" where
  "lower_first [] = []"
| "lower_first (c # cs) = (if is_upper c then toLowerCase [c] @ cs else c # cs)"

text \<open>
  \<^verbatim>\<open>/<([^>]+)>/\<close> tried at the head of \<open>s\<close>: the captured content and what follows the
  match. After \<^verbatim>\<open><\<close> the greedy \<^verbatim>\<open>+\<close> takes every code unit up to the next \<^verbatim>\<open>>\<close>; there
  must be one at least, and the \<^verbatim>\<open>>\<close> must be there (giving code units back cannot help:
  none of them is \<^verbatim>\<open>>\<close>).
\<close>

definition match_tag :: "jsstring \<Rightarrow> (jsstring \<times> jsstring) option" where
  "match_tag s =
     (case s of
        [] \<Rightarrow> None
      | c # cs \<Rightarrow>
          if c \<noteq> 60 then None
          else (case takeWhile (\<lambda>x. x \<noteq> 62) cs of
                  [] \<Rightarrow> None
                | x # xs \<Rightarrow>
                    (case dropWhile (\<lambda>x. x \<noteq> 62) cs of
                       [] \<Rightarrow> None
                     | g # rest \<Rightarrow> Some (x # xs, rest))))"

lemma match_tag_shorter: "match_tag s = Some (content, rest) \<Longrightarrow> length rest < length s"
proof -
  assume m: "match_tag s = Some (content, rest)"
  then obtain c cs where s: "s = c # cs" by (cases s) (auto simp: match_tag_def)
  from m s obtain g where "dropWhile (\<lambda>x. x \<noteq> 62) cs = g # rest"
    by (auto simp: match_tag_def split: if_splits list.splits)
  then have "length (dropWhile (\<lambda>x. x \<noteq> 62) cs) = Suc (length rest)" by simp
  moreover have "length (dropWhile (\<lambda>x. x \<noteq> 62) cs) \<le> length cs" by (rule length_dropWhile_le)
  ultimately show ?thesis using s by simp
qed

text \<open>
  \<^verbatim>\<open>/[^a-z0-9]+/g\<close> replaced by \<^verbatim>\<open>"-"\<close>: every maximal run of code units outside
  \<^verbatim>\<open>[a-z0-9]\<close> becomes one hyphen.
\<close>

function hyphenate :: "jsstring \<Rightarrow> jsstring" where
  "hyphenate [] = []"
| "hyphenate (c # cs) =
     (if is_lower_alnum c then c # hyphenate cs
      else 45 # hyphenate (dropWhile (\<lambda>x. \<not> is_lower_alnum x) cs))"
  by pat_completeness auto
termination
  by (relation "measure length") (auto simp: less_Suc_eq_le length_dropWhile_le)

text \<open>
  \<^verbatim>\<open>/(^-+|-+$)/g\<close> replaced by \<^verbatim>\<open>""\<close>: the hyphens the string starts with and the
  hyphens it ends with are removed.
\<close>

definition strip_hyphens :: "jsstring \<Rightarrow> jsstring" where
  "strip_hyphens s = rev (dropWhile (\<lambda>c. c = 45) (rev (dropWhile (\<lambda>c. c = 45) s)))"

section \<open>The functions of \<^verbatim>\<open>src/index.ts\<close>\<close>

definition TARGET_SKILL_LEVELS :: "nat list" where
  "TARGET_SKILL_LEVELS = [12, 16]"

text \<open>
  \<open>simplifyStats\<close>: \<open>None\<close> is \<^verbatim>\<open>undefined\<close>, as argument and as result. The loop over
  \<^verbatim>\<open>Object.entries(stats)\<close> is a fold over the properties of the object.
\<close>

fun simplifyStats :: "RawCharacter option \<Rightarrow> RawCharacter option" where
  "simplifyStats None = None"
| "simplifyStats (Some stats) =
     (let simplified =
            fold (\<lambda>(key, entry) simplified.
                    if is_number entry then assign key entry simplified else simplified)
              stats []
      in if simplified \<noteq> [] then Some simplified else None)"

fun getString :: "json \<Rightarrow> jsstring option" where
  "getString (JString s) = Some s"
| "getString v = None"

definition toLowerCamelCase :: "jsstring \<Rightarrow> jsstring" where
  "toLowerCamelCase key = lower_first (replace_sep key)"

function stripHtmlTags :: "jsstring \<Rightarrow> jsstring" where
  "stripHtmlTags [] = []"
| "stripHtmlTags (c # cs) =
     (case match_tag (c # cs) of
        Some (content, rest) \<Rightarrow>
          (if startsWith content (str ''IconMap:'') then [60] @ content @ [62] else [])
            @ stripHtmlTags rest
      | None \<Rightarrow> c # stripHtmlTags cs)"
  by pat_completeness auto
termination
  by (relation "measure length") (auto dest: match_tag_shorter)

fun normalizeKeys :: "json \<Rightarrow> json" where
  "normalizeKeys (JString s) = JString (stripHtmlTags s)"
| "normalizeKeys (JArray xs) = JArray (map normalizeKeys xs)"
| "normalizeKeys (JObject kvs) =
     JObject (fold (\<lambda>(key, entry) normalized.
                      assign (toLowerCamelCase key) (normalizeKeys entry) normalized)
                kvs [])"
| "normalizeKeys v = v"

definition shouldNormalizeAsPercent :: "jsstring \<Rightarrow> json \<Rightarrow> bool" where
  "shouldNormalizeAsPercent key format =
     (let normalizedKey = toLowerCase key;
          formatString = (case format of JString f \<Rightarrow> f | _ \<Rightarrow> [])
      in if normalizedKey = str ''main'' \<and> includes_js formatString (str ''%'') then True
         else includes_js normalizedKey (str ''percentage'')
              \<or> includes_js normalizedKey (str ''ratio''))"

text \<open>
  \<open>buildLevelValues\<close>. \<open>level_values\<close> is the inner loop, which fills the object
  \<^verbatim>\<open>values\<close> of one level; the outer loop runs over the target levels.
\<close>

definition level_values :: "RawCharacter \<Rightarrow> nat \<Rightarrow> RawCharacter" where
  "level_values stat level =
     fold (\<lambda>(key, entry) values.
             (case entry of
                JNumber n \<Rightarrow>
                  if endsWith key (str ''Growth'') then values
                  else
                    let growthKey = key @ str ''Growth'';
                        growthValue = (case obj_get growthKey stat of JNumber g \<Rightarrow> g | _ \<Rightarrow> Num 0);
                        raw = fadd n (fmul (fsub (Num (of_nat level)) (Num 1)) growthValue)
                    in assign key
                         (JNumber (if shouldNormalizeAsPercent key (obj_get (str ''format'') stat)
                                   then fdiv raw (Num 100) else raw))
                         values
              | _ \<Rightarrow> values))
       stat []"

definition buildLevelValues :: "RawCharacter \<Rightarrow> RawCharacter" where
  "buildLevelValues stat =
     fold (\<lambda>level levelValues.
             let values = level_values stat level
             in if values \<noteq> [] then assign (toString level) (JObject values) levelValues
                else levelValues)
       TARGET_SKILL_LEVELS []"

definition convertParamStat :: "RawCharacter \<Rightarrow> RawCharacter" where
  "convertParamStat stat =
     (if truthy (obj_get (str ''levelValues'') stat)
         \<and> is_object (obj_get (str ''levelValues'') stat)
      then stat
      else
        let levelValues = buildLevelValues stat;
            metadata =
              fold (\<lambda>(key, entry) metadata.
                      if \<not> is_number entry \<or> endsWith key (str ''Growth'')
                      then assign key entry metadata else metadata)
                stat []
        in if levelValues \<noteq> [] then assign (str ''levelValues'') (JObject levelValues) metadata
           else metadata)"

definition slugify :: "jsstring \<Rightarrow> jsstring" where
  "slugify name =
     strip_hyphens (hyphenate (filter (\<lambda>c. \<not> is_space c) (toLowerCase (trim name))))"

definition getIndexFileName :: "jsstring \<Rightarrow> RawCharacter \<Rightarrow> jsstring" where
  "getIndexFileName key indexEntry =
     (case getString (nullish (obj_get (str ''CodeName'') indexEntry)
                        (obj_get (str ''code'') indexEntry)) of
        None \<Rightarrow> key
      | Some code \<Rightarrow>
          if code = [] then key
          else let slug = slugify code in if slug \<noteq> [] then slug else key)"

section \<open>The functions of the variant that names the file after the fetched record\<close>

text \<open>
  The third unnamed source file has its own \<^verbatim>\<open>getString\<close> and \<^verbatim>\<open>slugify\<close>, and
  \<^verbatim>\<open>getFileName\<close>, which reads the code name of the detail record.
\<close>

fun getString_detail :: "json \<Rightarrow> jsstring option" where
  "getString_detail (JString s) = Some s"
| "getString_detail v = None"

definition slugify_detail :: "jsstring \<Rightarrow> jsstring" where
  "slugify_detail name =
     strip_hyphens (hyphenate (filter (\<lambda>c. \<not> is_space c) (toLowerCase (trim name))))"

definition getFileName :: "jsstring \<Rightarrow> RawCharacter \<Rightarrow> jsstring" where
  "getFileName key detail =
     (case getString_detail (obj_get (str ''CodeName'') detail) of
        None \<Rightarrow> key
      | Some codeName \<Rightarrow>
          if codeName = [] then key
          else let slug = slugify_detail codeName in if slug \<noteq> [] then slug else key)"

section \<open>Notions of the specification\<close>

text \<open>
  The growth of a stat, in the words of the spec: the value of the sibling field named by
  the stat's name followed by \<^verbatim>\<open>Growth\<close> when that field is numeric, and zero otherwise.
\<close>

definition growth_of :: "RawCharacter \<Rightarrow> jsstring \<Rightarrow> number" where
  "growth_of stat key =
     (case obj_get (key @ str ''Growth'') stat of JNumber g \<Rightarrow> g | _ \<Rightarrow> Num 0)"

text \<open>The values all of whose object keys, at every depth, are ASCII strings.\<close>

fun ascii_keys :: "json \<Rightarrow> bool" where
  "ascii_keys (JArray xs) = (\<forall>x \<in> set xs. ascii_keys x)"
| "ascii_keys (JObject kvs) = (\<forall>(k, e) \<in> set kvs. (\<forall>c \<in> set k. c < 128) \<and> ascii_keys e)"
| "ascii_keys v = True"

section \<open>Notions of the proofs\<close>

text \<open>The number a numeric value holds (used on numeric values only).\<close>

fun number_of :: "json \<Rightarrow> number" where
  "number_of (JNumber n) = n"
| "number_of v = Num 0"

text \<open>
  The reading of a string by the tag pattern \<^verbatim>\<open>/<([^>]+)>/g\<close>: a sequence of pieces of text
  and of matches \<^verbatim>\<open><content>\<close>, followed by a tail. The content of a match is not empty and
  holds no \<^verbatim>\<open>>\<close>; it can hold a \<^verbatim>\<open><\<close>, since a match begins at the first \<^verbatim>\<open><\<close> from which the
  pattern can reach a \<^verbatim>\<open>>\<close>. In a piece of text every \<^verbatim>\<open><\<close> is directly followed by \<^verbatim>\<open>>\<close>, and
  the tail holds no \<^verbatim>\<open>>\<close>. \<open>keep_icon_tags\<close> keeps the text and the matches whose content
  begins with \<^verbatim>\<open>IconMap:\<close>.
\<close>

datatype piece = Text jsstring | Tag jsstring

fun render :: "piece list \<Rightarrow> jsstring" where
  "render [] = []"
| "render (Text t # ps) = t @ render ps"
| "render (Tag content # ps) = [60] @ content @ [62] @ render ps"

fun keep_icon_tags :: "piece list \<Rightarrow> jsstring" where
  "keep_icon_tags [] = []"
| "keep_icon_tags (Text t # ps) = t @ keep_icon_tags ps"
| "keep_icon_tags (Tag content # ps) =
     (if startsWith content (str ''IconMap:'') then [60] @ content @ [62] else [])
       @ keep_icon_tags ps"

fun no_open :: "jsstring \<Rightarrow> bool" where
  "no_open [] = True"
| "no_open [c] = (c \<noteq> 60)"
| "no_open (c # d # cs) = ((c = 60 \<longrightarrow> d = 62) \<and> no_open (d # cs))"

fun well_formed :: "piece list \<Rightarrow> bool" where
  "well_formed [] = True"
| "well_formed (Text t # ps) = (no_open t \<and> well_formed ps)"
| "well_formed (Tag content # ps) = (content \<noteq> [] \<and> 62 \<notin> set content \<and> well_formed ps)"

text \<open>The pieces that the tag stripper keeps.\<close>

fun kept :: "piece list \<Rightarrow> piece list" where
  "kept [] = []"
| "kept (Text t # ps) = Text t # kept ps"
| "kept (Tag content # ps) =
     (if startsWith content (str ''IconMap:'') then Tag content # kept ps else kept ps)"

text \<open>A string in which the separator pattern matches nowhere.\<close>

fun nomatch :: "jsstring \<Rightarrow> bool" where
  "nomatch [] = True"
| "nomatch (c # cs) = (match_sep (c # cs) = None \<and> nomatch cs)"

section \<open>Evaluation on literals\<close>

lemmas char_class_defs =
  is_digit_def is_upper_def is_lower_def is_alnum_def is_lower_alnum_def
  is_line_terminator_def is_space_def

lemmas string_op_defs =
  str_def charToUpper_def charToLower_def toUpperCase_def toLowerCase_def
  startsWith_def endsWith_def trim_def strip_hyphens_def

lemma floor_numeral_rat: "\<lfloor>numeral a / numeral b :: rat\<rfloor> = numeral a div numeral b"
  by (metis floor_divide_of_int_eq of_int_numeral)

lemma ceiling_numeral_rat: "\<lceil>numeral a / numeral b :: rat\<rceil> = - (- numeral a div numeral b)"
  by (metis ceiling_def floor_divide_of_int_eq minus_divide_left of_int_minus of_int_numeral)

lemma floor_one_rat: "\<lfloor>1 / numeral b :: rat\<rfloor> = 1 div numeral b"
  by (metis floor_divide_of_int_eq of_int_1 of_int_numeral)

lemma ceiling_one_rat: "\<lceil>1 / numeral b :: rat\<rceil> = - (- 1 div numeral b)"
  by (metis ceiling_def floor_divide_of_int_eq minus_divide_left of_int_minus of_int_1
      of_int_numeral)

lemmas double_defs =
  fadd_def fsub_def fmul_def fdiv_def round_double_def round_half_even_def exponent_of_def
  pow2_def signed_zero_def signed_infinity_def Let_def floor_numeral_rat ceiling_numeral_rat
  floor_one_rat ceiling_one_rat

text \<open>
  The rounding at the literal \<^verbatim>\<open>0.1\<close>, at an integer, at the ties above \<open>2 ^ 53\<close>, at the
  largest double and above it, and at the smallest subnormal number and below it.
\<close>

lemma round_double_examples:
  "round_double (1 / 10) = Num (3602879701896397 / 36028797018963968)"
  "round_double 210 = Num 210"
  "round_double 9007199254740993 = Num 9007199254740992"
  "round_double 9007199254740995 = Num 9007199254740996"
  "round_double (- 9007199254740995) = Num (- 9007199254740996)"
  "round_double (2 ^ 1024 - 2 ^ 970 - 1) = Num (2 ^ 1024 - 2 ^ 971)"
  "round_double (2 ^ 1024 - 2 ^ 970) = PosInfinity"
  "round_double (- (2 ^ 1024)) = NegInfinity"
  "round_double (1 / 2 ^ 1074) = Num (1 / 2 ^ 1074)"
  "round_double (3 / 2 ^ 1075) = Num (1 / 2 ^ 1073)"
  "round_double (1 / 2 ^ 1075) = Num 0"
  "round_double (- 1 / 2 ^ 1075) = NegZero"
  by (simp_all add: double_defs)

section \<open>Loops that fill an object\<close>

text \<open>
  The loops of the source that copy selected entries of an object into a new object have
  one shape: the entries \<open>(k, e)\<close> that satisfy \<open>P\<close> are assigned, under their own key, the
  value \<open>g k e\<close>. On an object, whose keys are distinct, the new object is read as follows.
\<close>

lemma map_of_assign:
  "map_of (assign k v obj) k' =
     (if k = k' \<and> k \<noteq> str ''__proto__'' then Some v else map_of obj k')"
  by (simp add: assign_def update_conv')

lemma fold_assign_lookup:
  assumes "distinct (map fst xs)"
  shows "map_of (fold (\<lambda>(k, e) acc. if P k e then assign k (g k e) acc else acc) xs acc) k' =
     (case map_of xs k' of
        Some e \<Rightarrow> if P k' e \<and> k' \<noteq> str ''__proto__'' then Some (g k' e) else map_of acc k'
      | None \<Rightarrow> map_of acc k')"
  using assms
proof (induction xs arbitrary: acc)
  case Nil
  then show ?case by simp
next
  case (Cons x xs)
  obtain k e where x: "x = (k, e)" by (cases x)
  from Cons.prems x have d: "distinct (map fst xs)" and n: "map_of xs k = None"
    by (auto simp: map_of_eq_None_iff)
  show ?case
    using Cons.IH [OF d, of "if P k e then assign k (g k e) acc else acc"] n
    by (simp add: x map_of_assign split: option.splits)
qed

lemma empty_iff_no_key: "(r = []) \<longleftrightarrow> (\<forall>k'. map_of r k' = None)"
  by (cases r) (auto simp: fun_eq_iff)

lemma no_selected_entry:
  assumes "distinct (map fst xs)"
  shows "(\<forall>k'. case map_of xs k' of
        Some e \<Rightarrow> \<not> (P k' e \<and> k' \<noteq> str ''__proto__'') | None \<Rightarrow> True)
   \<longleftrightarrow> (\<forall>(k, e) \<in> set xs. \<not> (P k e \<and> k \<noteq> str ''__proto__''))"
proof
  assume a: "\<forall>k'. case map_of xs k' of
        Some e \<Rightarrow> \<not> (P k' e \<and> k' \<noteq> str ''__proto__'') | None \<Rightarrow> True"
  show "\<forall>(k, e) \<in> set xs. \<not> (P k e \<and> k \<noteq> str ''__proto__'')"
  proof (clarify)
    fix k e assume "(k, e) \<in> set xs" "P k e" "k \<noteq> str ''__proto__''"
    with assms have "map_of xs k = Some e" by simp
    with a [rule_format, of k] \<open>P k e\<close> \<open>k \<noteq> str ''__proto__''\<close> show False by simp
  qed
next
  assume b: "\<forall>(k, e) \<in> set xs. \<not> (P k e \<and> k \<noteq> str ''__proto__'')"
  show "\<forall>k'. case map_of xs k' of
        Some e \<Rightarrow> \<not> (P k' e \<and> k' \<noteq> str ''__proto__'') | None \<Rightarrow> True"
  proof
    fix k'
    show "case map_of xs k' of
        Some e \<Rightarrow> \<not> (P k' e \<and> k' \<noteq> str ''__proto__'') | None \<Rightarrow> True"
    proof (cases "map_of xs k'")
      case None
      then show ?thesis by simp
    next
      case (Some e)
      then have "(k', e) \<in> set xs" by (rule map_of_SomeD)
      with b Some show ?thesis by auto
    qed
  qed
qed

lemma fold_assign_empty:
  assumes "distinct (map fst xs)"
  shows "fold (\<lambda>(k, e) acc. if P k e then assign k (g k e) acc else acc) xs [] = [] \<longleftrightarrow>
     (\<forall>(k, e) \<in> set xs. \<not> (P k e \<and> k \<noteq> str ''__proto__''))"
proof -
  let ?r = "fold (\<lambda>(k, e) acc. if P k e then assign k (g k e) acc else acc) xs []"
  have "?r = [] \<longleftrightarrow> (\<forall>k'. map_of ?r k' = None)"
    by (rule empty_iff_no_key)
  also have "\<dots> \<longleftrightarrow> (\<forall>k'. case map_of xs k' of
        Some e \<Rightarrow> \<not> (P k' e \<and> k' \<noteq> str ''__proto__'') | None \<Rightarrow> True)"
  proof -
    have "map_of ?r k' = None \<longleftrightarrow> (case map_of xs k' of
        Some e \<Rightarrow> \<not> (P k' e \<and> k' \<noteq> str ''__proto__'') | None \<Rightarrow> True)" for k'
      by (simp add: fold_assign_lookup [OF assms] split: option.splits)
    then show ?thesis by simp
  qed
  also have "\<dots> \<longleftrightarrow> (\<forall>(k, e) \<in> set xs. \<not> (P k e \<and> k \<noteq> str ''__proto__''))"
    by (rule no_selected_entry [OF assms])
  finally show ?thesis .
qed

section \<open>The stat block filter\<close>

text \<open>
  Claim C9 fails on the code at the key \<^verbatim>\<open>__proto__\<close>, by a defect of the code. The mapping
  \<^verbatim>\<open>{"__proto__": 5}\<close> (an own property, as \<^verbatim>\<open>JSON.parse\<close> creates it) has a numeric value
  at that key; the filter means to copy the entry, but the assignment
  \<^verbatim>\<open>simplified["__proto__"] = 5\<close> adds no property, and the filter returns \<^verbatim>\<open>undefined\<close>
  where the claim asks for a mapping that holds the key with the value 5.
\<close>

theorem simplifyStats_proto_entry_lost:
  "simplifyStats (Some [(str ''__proto__'', JNumber (Num 5))]) = None"
  by (simp add: assign_def)

text \<open>
  On every other key the filter does what claim C9 says. For a mapping \<open>M\<close> (its keys are
  distinct): the filter returns \<^verbatim>\<open>undefined\<close> exactly when no entry of \<open>M\<close> under a key other
  than \<^verbatim>\<open>__proto__\<close> is numeric; otherwise the mapping it returns holds every key \<open>k\<close> of \<open>M\<close>
  other than \<^verbatim>\<open>__proto__\<close> whose value is numeric, with the identical value, and no other
  key (a key whose value is not numeric is absent).
\<close>

lemma simplifyStats_filter:
  assumes "distinct (map fst M)"
  shows "(simplifyStats (Some M) = None \<longleftrightarrow>
            (\<forall>(k, e) \<in> set M. \<not> (is_number e \<and> k \<noteq> str ''__proto__'')))
       \<and> (\<forall>out. simplifyStats (Some M) = Some out \<longrightarrow>
            (\<forall>k. map_of out k =
               (case map_of M k of
                  Some e \<Rightarrow> if is_number e \<and> k \<noteq> str ''__proto__'' then Some e else None
                | None \<Rightarrow> None)))"
proof -
  let ?r = "fold (\<lambda>(key, entry) simplified.
                if is_number entry then assign key entry simplified else simplified) M []"
  have e: "?r = [] \<longleftrightarrow> (\<forall>(k, e) \<in> set M. \<not> (is_number e \<and> k \<noteq> str ''__proto__''))"
    using fold_assign_empty [OF assms, of "\<lambda>k e. is_number e" "\<lambda>k e. e"] by simp
  have l: "map_of ?r k =
       (case map_of M k of
          Some e \<Rightarrow> if is_number e \<and> k \<noteq> str ''__proto__'' then Some e else None
        | None \<Rightarrow> None)" for k
    using fold_assign_lookup [OF assms, of "\<lambda>k e. is_number e" "\<lambda>k e. e" "[]" k]
    by (simp split: option.splits)
  show ?thesis
    using e l by (auto simp: Let_def)
qed

lemma stats_example_distinct:
  "distinct (map fst [(str ''HP'', JNumber (Num 100)), (str ''Note'', JString (str ''x''))])"
  by (simp add: str_def)

lemma stats_example_result:
  "simplifyStats (Some [(str ''HP'', JNumber (Num 100)), (str ''Note'', JString (str ''x''))])
     = Some [(str ''HP'', JNumber (Num 100))]"
  by (simp add: assign_def str_def)

lemma stats_example_keys:
  "str ''HP'' \<noteq> str ''__proto__''" "str ''Note'' \<noteq> str ''HP''"
  by (simp_all add: str_def)

lemma simplifyStats_filter_example:
  "distinct (map fst [(str ''HP'', JNumber (Num 100)), (str ''Note'', JString (str ''x''))])
   \<and> simplifyStats (Some [(str ''HP'', JNumber (Num 100)), (str ''Note'', JString (str ''x''))])
       = Some [(str ''HP'', JNumber (Num 100))]
   \<and> map_of [(str ''HP'', JNumber (Num 100))] (str ''HP'') = Some (JNumber (Num 100))
   \<and> map_of [(str ''HP'', JNumber (Num 100))] (str ''Note'') = None"
proof -
  let ?M = "[(str ''HP'', JNumber (Num 100)), (str ''Note'', JString (str ''x''))]"
  let ?out = "[(str ''HP'', JNumber (Num 100))]"
  from simplifyStats_filter [OF stats_example_distinct] stats_example_result
  have l: "map_of ?out k =
       (case map_of ?M k of
          Some e \<Rightarrow> if is_number e \<and> k \<noteq> str ''__proto__'' then Some e else None
        | None \<Rightarrow> None)" for k
    by blast
  have "map_of ?out (str ''HP'') = Some (JNumber (Num 100))"
    by (subst l) (simp add: stats_example_keys)
  moreover have "map_of ?out (str ''Note'') = None"
    by (subst l) (simp add: stats_example_keys)
  ultimately show ?thesis
    using stats_example_distinct stats_example_result by blast
qed

section \<open>The output namer\<close>

lemma slugify_Alice: "slugify (str ''Alice: The Good!'') = str ''alice-thegood''"
  by (simp add: slugify_def char_class_defs string_op_defs)

lemma slugify_spaces: "slugify (str ''   '') = []"
  by (simp add: slugify_def char_class_defs string_op_defs)

lemma slugify_Nil: "slugify [] = []"
  by (simp add: slugify_def char_class_defs string_op_defs)

text \<open>
  Claim C3, as the spec states it, fails at its first example: the slugifier deletes the
  white space before it replaces the runs of other characters by hyphens, so that
  \<^verbatim>\<open>"Alice: The Good!"\<close> becomes \<^verbatim>\<open>"alice-thegood"\<close>, not \<^verbatim>\<open>"alice-the-good"\<close>.
\<close>

theorem slugify_Alice_counterexample:
  "slugify (str ''Alice: The Good!'') \<noteq> str ''alice-the-good''"
  by (simp add: slugify_def char_class_defs string_op_defs)

text \<open>
  Claim C3, amended. The slugifier maps \<^verbatim>\<open>"Alice: The Good!"\<close> to \<^verbatim>\<open>"alice-thegood"\<close> and
  the string of three spaces to the empty string. The output namer reads the code name of
  the index entry (\<^verbatim>\<open>CodeName\<close>, or \<^verbatim>\<open>code\<close> when that is \<^verbatim>\<open>undefined\<close> or \<^verbatim>\<open>null\<close>); when
  it is not a string the name is the raw key, and when it is a string the name is its
  slug, or the raw key when the slug is empty.
\<close>

theorem slugify_and_fallback:
  "slugify (str ''Alice: The Good!'') = str ''alice-thegood''
   \<and> slugify (str ''   '') = []
   \<and> (getString (nullish (obj_get (str ''CodeName'') indexEntry)
                    (obj_get (str ''code'') indexEntry)) = None
        \<longrightarrow> getIndexFileName key indexEntry = key)
   \<and> (\<forall>code. getString (nullish (obj_get (str ''CodeName'') indexEntry)
                          (obj_get (str ''code'') indexEntry)) = Some code
        \<longrightarrow> getIndexFileName key indexEntry = (if slugify code = [] then key else slugify code))"
  by (simp add: slugify_Alice slugify_spaces getIndexFileName_def slugify_Nil)

lemma codeName_absent:
  "getString (nullish (obj_get (str ''CodeName'') []) (obj_get (str ''code'') [])) = None"
  by (simp add: obj_get_def nullish_def)

lemma codeName_spaces:
  "getString (nullish (obj_get (str ''CodeName'') [(str ''CodeName'', JString (str ''   ''))])
                (obj_get (str ''code'') [(str ''CodeName'', JString (str ''   ''))]))
     = Some (str ''   '')"
  by (simp add: obj_get_def nullish_def)

theorem slugify_and_fallback_witness:
  "getIndexFileName (str ''1011'') [] = str ''1011''
   \<and> getIndexFileName (str ''1011'') [(str ''CodeName'', JString (str ''   ''))] = str ''1011''"
proof -
  have "getIndexFileName (str ''1011'') [] = str ''1011''"
    using slugify_and_fallback [of "[]" "str ''1011''"] codeName_absent by blast
  moreover have "getIndexFileName (str ''1011'') [(str ''CodeName'', JString (str ''   ''))]
      = (if slugify (str ''   '') = [] then str ''1011'' else slugify (str ''   ''))"
    using slugify_and_fallback [of "[(str ''CodeName'', JString (str ''   ''))]" "str ''1011''"]
      codeName_spaces by blast
  ultimately show ?thesis by (simp add: slugify_spaces)
qed

section \<open>The two naming policies\<close>

lemma getString_detail_eq: "getString_detail v = getString v"
  by (cases v) simp_all

lemma slugify_detail_eq: "slugify_detail name = slugify name"
  by (simp add: slugify_def slugify_detail_def)

text \<open>
  Claim C7. The index entry carries its code name under \<^verbatim>\<open>CodeName\<close> or, when that is
  \<^verbatim>\<open>undefined\<close> or \<^verbatim>\<open>null\<close>, under \<^verbatim>\<open>code\<close>; the detail record carries it under \<^verbatim>\<open>CodeName\<close>.
  When the two values are the same, the name derived from the index entry and the name
  derived from the detail record are the same, for every key: the same slug, and the raw
  key in the same cases (no code name, an empty one, an empty slug).
\<close>

theorem naming_policies_agree:
  assumes "nullish (obj_get (str ''CodeName'') indexEntry) (obj_get (str ''code'') indexEntry)
             = obj_get (str ''CodeName'') detail"
  shows "getIndexFileName key indexEntry = getFileName key detail"
  using assms
  by (simp add: getIndexFileName_def getFileName_def getString_detail_eq slugify_detail_eq
        split: option.splits)

lemma index_name_Anby:
  "getIndexFileName (str ''1011'') [(str ''code'', JString (str ''Anby''))] = str ''anby''"
  by (simp add: getIndexFileName_def obj_get_def nullish_def slugify_def char_class_defs
        string_op_defs)

lemma same_code_name_Anby:
  "nullish (obj_get (str ''CodeName'') [(str ''code'', JString (str ''Anby''))])
        (obj_get (str ''code'') [(str ''code'', JString (str ''Anby''))])
     = obj_get (str ''CodeName'') [(str ''CodeName'', JString (str ''Anby''))]"
  by (simp add: obj_get_def nullish_def str_def)

theorem naming_policies_agree_witness:
  "nullish (obj_get (str ''CodeName'') [(str ''code'', JString (str ''Anby''))])
        (obj_get (str ''code'') [(str ''code'', JString (str ''Anby''))])
     = obj_get (str ''CodeName'') [(str ''CodeName'', JString (str ''Anby''))]
   \<and> getIndexFileName (str ''1011'') [(str ''code'', JString (str ''Anby''))] = str ''anby''
   \<and> getFileName (str ''1011'') [(str ''CodeName'', JString (str ''Anby''))] = str ''anby''"
  using naming_policies_agree [OF same_code_name_Anby, of "str ''1011''"]
    index_name_Anby same_code_name_Anby
  by simp

section \<open>The level projector\<close>

lemma level_values_loop:
  "level_values stat level =
     fold (\<lambda>(k, e) acc.
             if is_number e \<and> \<not> endsWith k (str ''Growth'')
             then assign k
                    (JNumber
                       (if shouldNormalizeAsPercent k (obj_get (str ''format'') stat)
                        then fdiv (fadd (number_of e)
                                     (fmul (fsub (Num (of_nat level)) (Num 1)) (growth_of stat k)))
                               (Num 100)
                        else fadd (number_of e)
                               (fmul (fsub (Num (of_nat level)) (Num 1)) (growth_of stat k))))
                    acc
             else acc)
       stat []"
proof -
  have "(\<lambda>(key, entry) values.
             (case entry of
                JNumber n \<Rightarrow>
                  if endsWith key (str ''Growth'') then values
                  else
                    let growthKey = key @ str ''Growth'';
                        growthValue = (case obj_get growthKey stat of JNumber g \<Rightarrow> g | _ \<Rightarrow> Num 0);
                        raw = fadd n (fmul (fsub (Num (of_nat level)) (Num 1)) growthValue)
                    in assign key
                         (JNumber (if shouldNormalizeAsPercent key (obj_get (str ''format'') stat)
                                   then fdiv raw (Num 100) else raw))
                         values
              | _ \<Rightarrow> values))
     = (\<lambda>(k, e) acc.
             if is_number e \<and> \<not> endsWith k (str ''Growth'')
             then assign k
                    (JNumber
                       (if shouldNormalizeAsPercent k (obj_get (str ''format'') stat)
                        then fdiv (fadd (number_of e)
                                     (fmul (fsub (Num (of_nat level)) (Num 1)) (growth_of stat k)))
                               (Num 100)
                        else fadd (number_of e)
                               (fmul (fsub (Num (of_nat level)) (Num 1)) (growth_of stat k))))
                    acc
             else acc)"
    by (auto simp: fun_eq_iff Let_def growth_of_def split: json.splits)
  then show ?thesis by (simp only: level_values_def)
qed

lemma level_values_lookup:
  assumes "distinct (map fst stat)"
  shows "map_of (level_values stat level) key =
     (case map_of stat key of
        Some (JNumber n) \<Rightarrow>
          if endsWith key (str ''Growth'') \<or> key = str ''__proto__'' then None
          else Some (JNumber
                 (if shouldNormalizeAsPercent key (obj_get (str ''format'') stat)
                  then fdiv (fadd n (fmul (fsub (Num (of_nat level)) (Num 1)) (growth_of stat key)))
                         (Num 100)
                  else fadd n (fmul (fsub (Num (of_nat level)) (Num 1)) (growth_of stat key))))
      | _ \<Rightarrow> None)"
  unfolding level_values_loop
  by (subst fold_assign_lookup [OF assms]) (auto split: option.splits json.splits)

lemma level_values_empty:
  assumes "distinct (map fst stat)"
  shows "level_values stat level = [] \<longleftrightarrow>
     (\<forall>(k, e) \<in> set stat.
        \<not> ((is_number e \<and> \<not> endsWith k (str ''Growth'')) \<and> k \<noteq> str ''__proto__''))"
  unfolding level_values_loop
  by (rule fold_assign_empty [OF assms])

lemma level_keys:
  "toString 12 = str ''12''" "toString 16 = str ''16''"
  "str ''12'' \<noteq> str ''16''" "str ''16'' \<noteq> str ''12''" "str ''12'' \<noteq> str ''__proto__''" "str ''16'' \<noteq> str ''__proto__''"
  by (simp_all add: str_def)

lemma buildLevelValues_unfold:
  "buildLevelValues stat =
     (if level_values stat 12 = [] then []
      else [(str ''12'', JObject (level_values stat 12))])
     @ (if level_values stat 16 = [] then []
        else [(str ''16'', JObject (level_values stat 16))])"
  by (simp add: buildLevelValues_def TARGET_SKILL_LEVELS_def Let_def assign_def level_keys
        del: toString.simps)

lemma buildLevelValues_lookup:
  assumes "distinct (map fst stat)" and "level \<in> set TARGET_SKILL_LEVELS"
  shows "map_of (buildLevelValues stat) (toString level) =
     (if \<forall>(k, e) \<in> set stat.
           \<not> (is_number e \<and> \<not> endsWith k (str ''Growth'') \<and> k \<noteq> str ''__proto__'')
      then None else Some (JObject (level_values stat level)))"
proof -
  let ?none = "\<forall>(k, e) \<in> set stat.
     \<not> (is_number e \<and> \<not> endsWith k (str ''Growth'') \<and> k \<noteq> str ''__proto__'')"
  have e: "level_values stat l = [] \<longleftrightarrow> ?none" for l
    using level_values_empty [OF assms(1), of l] by simp
  from assms(2) have l: "level = 12 \<or> level = 16"
    by (simp add: TARGET_SKILL_LEVELS_def)
  show ?thesis
    using l e [of 12] e [of 16]
    by (auto simp: buildLevelValues_unfold level_keys simp del: toString.simps)
qed

lemmas projector_eval =
  level_values_def buildLevelValues_def TARGET_SKILL_LEVELS_def shouldNormalizeAsPercent_def
  obj_get_def assign_def Let_def char_class_defs string_op_defs double_defs

text \<open>
  The factor \<^verbatim>\<open>level - 1\<close> is exact at the two target levels: it is 11 and 15.
\<close>

lemma level_minus_one:
  "fsub (Num 12) (Num 1) = Num 11" "fsub (Num 16) (Num 1) = Num 15"
  by (simp_all add: double_defs)

lemma target_level_values_lookup:
  assumes "distinct (map fst stat)" and "level \<in> set TARGET_SKILL_LEVELS"
  shows "map_of (level_values stat level) key =
     (case map_of stat key of
        Some (JNumber base) \<Rightarrow>
          if endsWith key (str ''Growth'') \<or> key = str ''__proto__'' then None
          else Some (JNumber
                 (if shouldNormalizeAsPercent key (obj_get (str ''format'') stat)
                  then fdiv (fadd base (fmul (Num (of_nat level - 1)) (growth_of stat key)))
                         (Num 100)
                  else fadd base (fmul (Num (of_nat level - 1)) (growth_of stat key))))
      | _ \<Rightarrow> None)"
proof -
  from assms(2) have "level = 12 \<or> level = 16"
    by (simp add: TARGET_SKILL_LEVELS_def)
  then have m: "fsub (Num (of_nat level)) (Num 1) = Num (of_nat level - 1)"
    using level_minus_one by auto
  show ?thesis
    by (simp only: level_values_lookup [OF assms(1)] m)
qed

text \<open>
  The sum and the product are those of the engine, each rounded to a double. The block
  \<^verbatim>\<open>{damage: 0.1, damageGrowth: 0.2}\<close> gives \<^verbatim>\<open>2.3000000000000003\<close> at level 12, which is not
  the exact value of \<open>base + 11 * growth\<close> for the two doubles; the base \<open>2 ^ 53\<close> with the
  growth 1 gives \<open>2 ^ 53 + 12\<close>; and the largest double as the growth of the base 0 gives
  \<^verbatim>\<open>Infinity\<close>.
\<close>

lemma level_values_rounded:
  "level_values [(str ''damage'', JNumber (round_double (1 / 10))),
                 (str ''damageGrowth'', JNumber (round_double (2 / 10)))] 12
     = [(str ''damage'', JNumber (Num (5179139571476071 / 2251799813685248)))]"
  "Num (5179139571476071 / 2251799813685248)
     \<noteq> Num (value_of (round_double (1 / 10)) + 11 * value_of (round_double (2 / 10)))"
  "round_double (23 / 10) = Num (2589569785738035 / 1125899906842624)"
  "level_values [(str ''damage'', JNumber (Num 9007199254740992)),
                 (str ''damageGrowth'', JNumber (Num 1))] 12
     = [(str ''damage'', JNumber (Num 9007199254741004))]"
  by (simp_all add: projector_eval)

lemma level_values_overflow:
  "level_values
     [(str ''damage'', JNumber (Num 0)),
      (str ''damageGrowth'', JNumber (Num (2 ^ 1024 - 2 ^ 971)))] 12
     = [(str ''damage'', JNumber PosInfinity)]"
  by (simp add: projector_eval)

lemma hpPercentage_table:
  "buildLevelValues [(str ''hpPercentage'', JNumber (Num 100)),
                     (str ''hpPercentageGrowth'', JNumber (Num 10))]
     = [(str ''12'', JObject [(str ''hpPercentage'', JNumber (round_double (21 / 10)))]),
        (str ''16'', JObject [(str ''hpPercentage'', JNumber (round_double (5 / 2)))])]"
  by (simp add: projector_eval)

text \<open>
  Claim C1, as the spec states it, fails on the fields the percent rule applies to: by
  design they are stored divided by 100, and for \<^verbatim>\<open>{hpPercentage: 100, hpPercentageGrowth: 10}\<close>
  the value at level 12 is the double \<^verbatim>\<open>2.1\<close>, not \<open>100 + (12 - 1) * 10\<close>, which is 210. It
  also fails, by the defect of the assignment and not by design, on a numeric field named
  \<^verbatim>\<open>__proto__\<close>, which is not stored at all: the table of \<^verbatim>\<open>{"__proto__": 1}\<close> is empty.
\<close>

theorem buildLevelValues_counterexample:
  "map_of (level_values [(str ''hpPercentage'', JNumber (Num 100)),
                         (str ''hpPercentageGrowth'', JNumber (Num 10))] 12) (str ''hpPercentage'')
     \<noteq> Some (JNumber (fadd (Num 100) (fmul (fsub (Num 12) (Num 1)) (Num 10))))
   \<and> fadd (Num 100) (fmul (fsub (Num 12) (Num 1)) (Num 10)) = Num 210
   \<and> map_of (level_values [(str ''hpPercentage'', JNumber (Num 100)),
                           (str ''hpPercentageGrowth'', JNumber (Num 10))] 12) (str ''hpPercentage'')
       = Some (JNumber (round_double (21 / 10)))
   \<and> buildLevelValues [(str ''__proto__'', JNumber (Num 1))] = []"
  by (simp add: projector_eval)

text \<open>
  Claim C1, amended. For every stat block (its keys are distinct) and each level of the
  fixed list \<open>[12, 16]\<close>: the mapping of the level gives, for every field whose value is
  numeric and whose name neither ends in \<^verbatim>\<open>Growth\<close> nor is \<^verbatim>\<open>__proto__\<close>, the value
  \<open>base + (level - 1) * growth\<close> in the arithmetic of the engine (the factor \<open>level - 1\<close> is
  exact, the product and the sum are each rounded to a double), divided by 100 in that
  arithmetic when the percent rule applies to the field, where \<open>growth\<close> is the value of
  the sibling field \<^verbatim>\<open>name + "Growth"\<close> if that is numeric and 0 otherwise; it gives nothing
  for a field that is not numeric or whose name ends in \<^verbatim>\<open>Growth\<close>. The table maps the level
  number, as a string, to this mapping, and a level whose mapping is empty is omitted; the
  table has no other key than the level numbers. (The theorem also records what the code
  does with a field named \<^verbatim>\<open>__proto__\<close>, which the amended claim leaves out.)
\<close>

theorem buildLevelValues_table:
  assumes "distinct (map fst stat)" and "level \<in> set TARGET_SKILL_LEVELS"
  shows "TARGET_SKILL_LEVELS = [12, 16]
     \<and> map_of (buildLevelValues stat) (toString level) =
         (if \<forall>(k, e) \<in> set stat.
               \<not> (is_number e \<and> \<not> endsWith k (str ''Growth'') \<and> k \<noteq> str ''__proto__'')
          then None else Some (JObject (level_values stat level)))
     \<and> (\<forall>key. map_of (level_values stat level) key =
           (case map_of stat key of
              Some (JNumber base) \<Rightarrow>
                if endsWith key (str ''Growth'') \<or> key = str ''__proto__'' then None
                else Some (JNumber
                  (if shouldNormalizeAsPercent key (obj_get (str ''format'') stat)
                   then fdiv (fadd base (fmul (Num (of_nat level - 1)) (growth_of stat key)))
                          (Num 100)
                   else fadd base (fmul (Num (of_nat level - 1)) (growth_of stat key))))
            | _ \<Rightarrow> None))
     \<and> fst ` set (buildLevelValues stat) \<subseteq> toString ` set TARGET_SKILL_LEVELS"
proof -
  have "fst ` set (buildLevelValues stat) \<subseteq> toString ` set TARGET_SKILL_LEVELS"
    by (auto simp: buildLevelValues_unfold TARGET_SKILL_LEVELS_def level_keys
          simp del: toString.simps)
  then show ?thesis
    using buildLevelValues_lookup [OF assms] target_level_values_lookup [OF assms]
    by (simp add: TARGET_SKILL_LEVELS_def del: toString.simps)
qed

lemma damage_block_distinct:
  "distinct (map fst [(str ''damage'', JNumber (Num 100)), (str ''damageGrowth'', JNumber (Num 10)),
                      (str ''format'', JString [])])"
  by (simp add: str_def)

lemma damage_block_values:
  "level_values [(str ''damage'', JNumber (Num 100)), (str ''damageGrowth'', JNumber (Num 10)),
                 (str ''format'', JString [])] 12
     = [(str ''damage'', JNumber (Num 210))]"
  "level_values [(str ''damage'', JNumber (Num 100)), (str ''damageGrowth'', JNumber (Num 10)),
                 (str ''format'', JString [])] 16
     = [(str ''damage'', JNumber (Num 250))]"
  by (simp_all add: projector_eval)

lemma damage_block_projected:
  "\<not> (\<forall>(k, e) \<in> set [(str ''damage'', JNumber (Num 100)), (str ''damageGrowth'', JNumber (Num 10)),
                        (str ''format'', JString [])].
        \<not> (is_number e \<and> \<not> endsWith k (str ''Growth'') \<and> k \<noteq> str ''__proto__''))"
  by (simp add: string_op_defs)

theorem buildLevelValues_table_witness:
  "distinct (map fst [(str ''damage'', JNumber (Num 100)), (str ''damageGrowth'', JNumber (Num 10)),
                      (str ''format'', JString [])])
   \<and> 12 \<in> set TARGET_SKILL_LEVELS
   \<and> map_of (buildLevelValues [(str ''damage'', JNumber (Num 100)), (str ''damageGrowth'', JNumber (Num 10)),
                                (str ''format'', JString [])]) (str ''12'')
       = Some (JObject [(str ''damage'', JNumber (Num 210))])"
proof -
  let ?stat = "[(str ''damage'', JNumber (Num 100)), (str ''damageGrowth'', JNumber (Num 10)),
                (str ''format'', JString [])]"
  have m: "12 \<in> set TARGET_SKILL_LEVELS" by (simp add: TARGET_SKILL_LEVELS_def)
  from buildLevelValues_table [OF damage_block_distinct m]
  have "map_of (buildLevelValues ?stat) (toString 12) =
         (if \<forall>(k, e) \<in> set ?stat.
               \<not> (is_number e \<and> \<not> endsWith k (str ''Growth'') \<and> k \<noteq> str ''__proto__'')
          then None else Some (JObject (level_values ?stat 12)))"
    by blast
  then have "map_of (buildLevelValues ?stat) (str ''12'') = Some (JObject (level_values ?stat 12))"
    using damage_block_projected by (simp only: level_keys if_False)
  then show ?thesis
    using damage_block_distinct m by (simp only: damage_block_values simp_thms)
qed

section \<open>The percent rule\<close>

lemma shouldNormalizeAsPercent_iff:
  "shouldNormalizeAsPercent key format \<longleftrightarrow>
      (\<exists>f. format = JString f \<and> includes_js f (str ''%'') \<and> toLowerCase key = str ''main'')
      \<or> includes_js (toLowerCase key) (str ''percentage'')
      \<or> includes_js (toLowerCase key) (str ''ratio'')"
  by (cases format) (auto simp: shouldNormalizeAsPercent_def Let_def str_def startsWith_def)

text \<open>
  Claim C6. The percent rule holds of a field name and a format hint exactly when the
  hint is a string containing \<^verbatim>\<open>%\<close> and the lower-cased name is \<^verbatim>\<open>main\<close>, or the lower-cased
  name contains \<^verbatim>\<open>percentage\<close>, or it contains \<^verbatim>\<open>ratio\<close>. For every stat block (its keys are
  distinct), each target level and every field the projector projects (its value is
  numeric and its name neither ends in \<^verbatim>\<open>Growth\<close> nor is \<^verbatim>\<open>__proto__\<close>), the table has the
  mapping of the level, and the mapping stores for the field the projected value
  \<open>base + (level - 1) * growth\<close>, divided by 100 if the rule holds of the field's name and
  the block's \<^verbatim>\<open>format\<close>, and as it is if the rule does not hold; the arithmetic is that of
  the engine. For \<^verbatim>\<open>{hpPercentage: 100, hpPercentageGrowth: 10}\<close> the stored values at the
  levels 12 and 16 are the doubles \<^verbatim>\<open>2.1\<close> and \<^verbatim>\<open>2.5\<close>.
\<close>

theorem percent_rule:
  "(shouldNormalizeAsPercent key format \<longleftrightarrow>
      (\<exists>f. format = JString f \<and> includes_js f (str ''%'') \<and> toLowerCase key = str ''main'')
      \<or> includes_js (toLowerCase key) (str ''percentage'')
      \<or> includes_js (toLowerCase key) (str ''ratio''))
   \<and> (distinct (map fst stat) \<and> level \<in> set TARGET_SKILL_LEVELS
        \<and> map_of stat key = Some (JNumber base)
        \<and> \<not> endsWith key (str ''Growth'') \<and> key \<noteq> str ''__proto__'' \<longrightarrow>
        map_of (buildLevelValues stat) (toString level) = Some (JObject (level_values stat level))
        \<and> map_of (level_values stat level) key =
            Some (JNumber
              (if (\<exists>f. obj_get (str ''format'') stat = JString f \<and> includes_js f (str ''%'')
                       \<and> toLowerCase key = str ''main'')
                  \<or> includes_js (toLowerCase key) (str ''percentage'')
                  \<or> includes_js (toLowerCase key) (str ''ratio'')
               then fdiv (fadd base (fmul (Num (of_nat level - 1)) (growth_of stat key)))
                      (Num 100)
               else fadd base (fmul (Num (of_nat level - 1)) (growth_of stat key)))))
   \<and> buildLevelValues [(str ''hpPercentage'', JNumber (Num 100)),
                       (str ''hpPercentageGrowth'', JNumber (Num 10))]
       = [(str ''12'', JObject [(str ''hpPercentage'', JNumber (round_double (21 / 10)))]),
          (str ''16'', JObject [(str ''hpPercentage'', JNumber (round_double (5 / 2)))])]"
proof -
  have b: "map_of (buildLevelValues stat) (toString level)
             = Some (JObject (level_values stat level))
           \<and> map_of (level_values stat level) key =
               Some (JNumber
                 (if (\<exists>f. obj_get (str ''format'') stat = JString f \<and> includes_js f (str ''%'')
                          \<and> toLowerCase key = str ''main'')
                     \<or> includes_js (toLowerCase key) (str ''percentage'')
                     \<or> includes_js (toLowerCase key) (str ''ratio'')
                  then fdiv (fadd base (fmul (Num (of_nat level - 1)) (growth_of stat key)))
                         (Num 100)
                  else fadd base (fmul (Num (of_nat level - 1)) (growth_of stat key))))"
    if d: "distinct (map fst stat)" and l: "level \<in> set TARGET_SKILL_LEVELS"
      and s: "map_of stat key = Some (JNumber base)"
      and g: "\<not> endsWith key (str ''Growth'')" and p: "key \<noteq> str ''__proto__''"
  proof -
    from s have "(key, JNumber base) \<in> set stat" by (rule map_of_SomeD)
    with g p have "\<not> (\<forall>(k, e) \<in> set stat.
        \<not> (is_number e \<and> \<not> endsWith k (str ''Growth'') \<and> k \<noteq> str ''__proto__''))"
      by force
    then have "map_of (buildLevelValues stat) (toString level)
        = Some (JObject (level_values stat level))"
      by (simp only: buildLevelValues_lookup [OF d l] if_False)
    moreover have "map_of (level_values stat level) key =
        Some (JNumber
          (if shouldNormalizeAsPercent key (obj_get (str ''format'') stat)
           then fdiv (fadd base (fmul (Num (of_nat level - 1)) (growth_of stat key))) (Num 100)
           else fadd base (fmul (Num (of_nat level - 1)) (growth_of stat key))))"
      using s g p by (simp add: target_level_values_lookup [OF d l])
    ultimately show ?thesis
      by (simp only: shouldNormalizeAsPercent_iff)
  qed
  show ?thesis
    using shouldNormalizeAsPercent_iff [of key format] b hpPercentage_table by blast
qed

lemma hpPercentage_facts:
  "distinct (map fst [(str ''hpPercentage'', JNumber (Num 100)),
                      (str ''hpPercentageGrowth'', JNumber (Num 10))])"
  "12 \<in> set TARGET_SKILL_LEVELS"
  "map_of [(str ''hpPercentage'', JNumber (Num 100)),
           (str ''hpPercentageGrowth'', JNumber (Num 10))] (str ''hpPercentage'')
     = Some (JNumber (Num 100))"
  "\<not> endsWith (str ''hpPercentage'') (str ''Growth'')"
  "str ''hpPercentage'' \<noteq> str ''__proto__''"
  by (simp_all add: string_op_defs TARGET_SKILL_LEVELS_def)

lemma hpPercentage_rule:
  "includes_js (toLowerCase (str ''hpPercentage'')) (str ''percentage'')"
  by (simp add: string_op_defs char_class_defs)

lemma hpPercentage_value:
  "fdiv (fadd (Num 100)
           (fmul (Num (of_nat 12 - 1))
              (growth_of [(str ''hpPercentage'', JNumber (Num 100)),
                          (str ''hpPercentageGrowth'', JNumber (Num 10))] (str ''hpPercentage''))))
     (Num 100)
     = Num (4728779608739021 / 2251799813685248)"
  by (simp add: growth_of_def obj_get_def string_op_defs double_defs)

theorem percent_rule_witness:
  "distinct (map fst [(str ''hpPercentage'', JNumber (Num 100)),
                      (str ''hpPercentageGrowth'', JNumber (Num 10))])
   \<and> 12 \<in> set TARGET_SKILL_LEVELS
   \<and> map_of [(str ''hpPercentage'', JNumber (Num 100)),
             (str ''hpPercentageGrowth'', JNumber (Num 10))] (str ''hpPercentage'')
       = Some (JNumber (Num 100))
   \<and> \<not> endsWith (str ''hpPercentage'') (str ''Growth'')
   \<and> str ''hpPercentage'' \<noteq> str ''__proto__''
   \<and> map_of (level_values [(str ''hpPercentage'', JNumber (Num 100)),
                           (str ''hpPercentageGrowth'', JNumber (Num 10))] 12) (str ''hpPercentage'')
       = Some (JNumber (Num (4728779608739021 / 2251799813685248)))"
proof -
  let ?stat = "[(str ''hpPercentage'', JNumber (Num 100)),
                (str ''hpPercentageGrowth'', JNumber (Num 10))]"
  let ?raw = "fadd (Num 100) (fmul (Num (of_nat 12 - 1)) (growth_of ?stat (str ''hpPercentage'')))"
  from percent_rule [of "str ''hpPercentage''" JUndefined ?stat 12 "Num 100"] hpPercentage_facts
  have "map_of (level_values ?stat 12) (str ''hpPercentage'') =
      Some (JNumber
        (if (\<exists>f. obj_get (str ''format'') ?stat = JString f \<and> includes_js f (str ''%'')
                 \<and> toLowerCase (str ''hpPercentage'') = str ''main'')
            \<or> includes_js (toLowerCase (str ''hpPercentage'')) (str ''percentage'')
            \<or> includes_js (toLowerCase (str ''hpPercentage'')) (str ''ratio'')
         then fdiv ?raw (Num 100) else ?raw))"
    by blast
  then have "map_of (level_values ?stat 12) (str ''hpPercentage'')
      = Some (JNumber (Num (4728779608739021 / 2251799813685248)))"
    by (simp only: hpPercentage_rule hpPercentage_value simp_thms if_True)
  then show ?thesis
    using hpPercentage_facts by blast
qed

section \<open>The param-stat converter\<close>

lemmas converter_eval = convertParamStat_def projector_eval

text \<open>
  Claim C4, as the spec states it, fails on a block that has the key \<^verbatim>\<open>levelValues\<close> with a
  value that is not an object: the guard of the converter asks for a truthy value of type
  object. The block \<^verbatim>\<open>{levelValues: null, damage: 100}\<close> contains the key and is converted
  all the same.
\<close>

theorem convertParamStat_counterexample:
  "map_of [(str ''levelValues'', JNull), (str ''damage'', JNumber (Num 100))] (str ''levelValues'')
     = Some JNull
   \<and> convertParamStat [(str ''levelValues'', JNull), (str ''damage'', JNumber (Num 100))]
       \<noteq> [(str ''levelValues'', JNull), (str ''damage'', JNumber (Num 100))]
   \<and> convertParamStat [(str ''levelValues'', JNull), (str ''damage'', JNumber (Num 100))]
       = [(str ''levelValues'',
           JObject [(str ''12'', JObject [(str ''damage'', JNumber (Num 100))]),
                    (str ''16'', JObject [(str ''damage'', JNumber (Num 100))])])]"
  by (simp add: converter_eval)

text \<open>
  Claim C4, amended. For every block whose field \<^verbatim>\<open>levelValues\<close> holds an object or an
  array, the converter returns the block unmodified, identically equal to its input.
\<close>

theorem convertParamStat_processed:
  assumes "obj_get (str ''levelValues'') stat = JObject table
           \<or> obj_get (str ''levelValues'') stat = JArray items"
  shows "convertParamStat stat = stat"
  using assms by (auto simp: convertParamStat_def)

theorem convertParamStat_processed_witness:
  "obj_get (str ''levelValues'')
     [(str ''levelValues'', JObject [(str ''12'', JObject [(str ''damage'', JNumber (Num 210))])]),
      (str ''damage'', JNumber (Num 100))]
     = JObject [(str ''12'', JObject [(str ''damage'', JNumber (Num 210))])]
   \<and> convertParamStat
        [(str ''levelValues'', JObject [(str ''12'', JObject [(str ''damage'', JNumber (Num 210))])]),
         (str ''damage'', JNumber (Num 100))]
       = [(str ''levelValues'', JObject [(str ''12'', JObject [(str ''damage'', JNumber (Num 210))])]),
          (str ''damage'', JNumber (Num 100))]"
proof -
  let ?stat = "[(str ''levelValues'', JObject [(str ''12'', JObject [(str ''damage'', JNumber (Num 210))])]),
                (str ''damage'', JNumber (Num 100))]"
  have g: "obj_get (str ''levelValues'') ?stat
      = JObject [(str ''12'', JObject [(str ''damage'', JNumber (Num 210))])]"
    by (simp add: obj_get_def)
  then have "convertParamStat ?stat = ?stat"
    by (intro convertParamStat_processed [of ?stat _ "[]"] disjI1)
  with g show ?thesis by blast
qed
lemma levelValues_not_proto: "str ''levelValues'' \<noteq> str ''__proto__''"
  by (simp add: str_def)

lemma buildLevelValues_empty:
  assumes "distinct (map fst stat)"
  shows "buildLevelValues stat = [] \<longleftrightarrow>
     (\<forall>(k, e) \<in> set stat.
        \<not> (is_number e \<and> \<not> endsWith k (str ''Growth'') \<and> k \<noteq> str ''__proto__''))"
  using level_values_empty [OF assms, of 12] level_values_empty [OF assms, of 16]
  by (auto simp: buildLevelValues_unfold)

text \<open>
  Claim C2, as the spec states it, fails on the growth fields: by design the converter
  keeps every field that is not numeric or whose name ends in \<^verbatim>\<open>Growth\<close>, so that the
  numeric field \<^verbatim>\<open>damageGrowth\<close> of \<^verbatim>\<open>{damage: 100, damageGrowth: 10}\<close> is in the converted
  block. It also fails, by the defect of the assignment and not by design, on a field named
  \<^verbatim>\<open>__proto__\<close>, which is not kept, numeric or not.
\<close>

theorem convertParamStat_fields_counterexample:
  "map_of (convertParamStat [(str ''damage'', JNumber (Num 100)), (str ''damageGrowth'', JNumber (Num 10))])
     (str ''damageGrowth'') = Some (JNumber (Num 10))
   \<and> convertParamStat [(str ''__proto__'', JString (str ''x''))] = []"
  by (simp add: converter_eval)

text \<open>
  Claim C2, amended. For every param-stat block (its keys are distinct) whose field
  \<^verbatim>\<open>levelValues\<close> is not an object or an array: the converted block has, under the key
  \<^verbatim>\<open>levelValues\<close>, the per-level table when the table is not empty; apart from that it has
  exactly the fields of the input that are not numeric or whose names end in \<^verbatim>\<open>Growth\<close>,
  the field \<^verbatim>\<open>__proto__\<close> excepted, with their values; every numeric field whose name does
  not end in \<^verbatim>\<open>Growth\<close> is absent (the key \<^verbatim>\<open>levelValues\<close> then holds the table). The table
  is not empty exactly when some field other than \<^verbatim>\<open>__proto__\<close> is numeric with a name that
  does not end in \<^verbatim>\<open>Growth\<close>. (The theorem also records what the code does with a field named
  \<^verbatim>\<open>__proto__\<close>, which the amended claim leaves out.)
\<close>

theorem convertParamStat_fields:
  assumes "distinct (map fst stat)"
    and "\<forall>table. obj_get (str ''levelValues'') stat \<noteq> JObject table"
    and "\<forall>items. obj_get (str ''levelValues'') stat \<noteq> JArray items"
  shows "(\<forall>key. map_of (convertParamStat stat) key =
            (if key = str ''levelValues'' \<and> buildLevelValues stat \<noteq> []
             then Some (JObject (buildLevelValues stat))
             else (case map_of stat key of
                     Some e \<Rightarrow>
                       if (\<not> is_number e \<or> endsWith key (str ''Growth''))
                          \<and> key \<noteq> str ''__proto__''
                       then Some e else None
                   | None \<Rightarrow> None)))
       \<and> (buildLevelValues stat \<noteq> [] \<longleftrightarrow>
            (\<exists>(k, e) \<in> set stat.
               is_number e \<and> \<not> endsWith k (str ''Growth'') \<and> k \<noteq> str ''__proto__''))"
proof -
  define metadata where
    "metadata = fold (\<lambda>(key, entry) metadata.
                      if \<not> is_number entry \<or> endsWith key (str ''Growth'')
                      then assign key entry metadata else metadata) stat []"
  have g: "\<not> (truthy (obj_get (str ''levelValues'') stat)
              \<and> is_object (obj_get (str ''levelValues'') stat))"
    using assms(2,3) by (cases "obj_get (str ''levelValues'') stat") auto
  have c: "convertParamStat stat =
      (if buildLevelValues stat \<noteq> []
       then assign (str ''levelValues'') (JObject (buildLevelValues stat)) metadata
       else metadata)"
    by (simp only: convertParamStat_def Let_def g if_False metadata_def)
  have m: "map_of metadata key =
      (case map_of stat key of
         Some e \<Rightarrow>
           if (\<not> is_number e \<or> endsWith key (str ''Growth'')) \<and> key \<noteq> str ''__proto__''
           then Some e else None
       | None \<Rightarrow> None)" for key
    unfolding metadata_def
    by (subst fold_assign_lookup [OF assms(1)]) (simp split: option.splits)
  have "map_of (convertParamStat stat) key =
            (if key = str ''levelValues'' \<and> buildLevelValues stat \<noteq> []
             then Some (JObject (buildLevelValues stat))
             else (case map_of stat key of
                     Some e \<Rightarrow>
                       if (\<not> is_number e \<or> endsWith key (str ''Growth''))
                          \<and> key \<noteq> str ''__proto__''
                       then Some e else None
                   | None \<Rightarrow> None))" for key
    unfolding c by (simp add: map_of_assign levelValues_not_proto m)
  moreover have "buildLevelValues stat \<noteq> [] \<longleftrightarrow>
            (\<exists>(k, e) \<in> set stat.
               is_number e \<and> \<not> endsWith k (str ''Growth'') \<and> k \<noteq> str ''__proto__'')"
    unfolding buildLevelValues_empty [OF assms(1)] by auto
  ultimately show ?thesis by blast
qed

lemma damage_block_not_processed:
  "obj_get (str ''levelValues'')
     [(str ''damage'', JNumber (Num 100)), (str ''damageGrowth'', JNumber (Num 10)),
      (str ''format'', JString [])] = JUndefined"
  by (simp add: obj_get_def str_def)

theorem convertParamStat_fields_witness:
  "distinct (map fst [(str ''damage'', JNumber (Num 100)), (str ''damageGrowth'', JNumber (Num 10)),
                      (str ''format'', JString [])])
   \<and> obj_get (str ''levelValues'')
        [(str ''damage'', JNumber (Num 100)), (str ''damageGrowth'', JNumber (Num 10)),
         (str ''format'', JString [])] = JUndefined
   \<and> map_of (convertParamStat [(str ''damage'', JNumber (Num 100)), (str ''damageGrowth'', JNumber (Num 10)),
                                (str ''format'', JString [])]) (str ''damage'') = None
   \<and> map_of (convertParamStat [(str ''damage'', JNumber (Num 100)), (str ''damageGrowth'', JNumber (Num 10)),
                                (str ''format'', JString [])]) (str ''format'')
       = Some (JString [])"
proof -
  let ?stat = "[(str ''damage'', JNumber (Num 100)), (str ''damageGrowth'', JNumber (Num 10)),
                (str ''format'', JString [])]"
  have a: "\<forall>table. obj_get (str ''levelValues'') ?stat \<noteq> JObject table"
    and b: "\<forall>items. obj_get (str ''levelValues'') ?stat \<noteq> JArray items"
    by (simp_all only: damage_block_not_processed json.distinct simp_thms)
  from convertParamStat_fields [OF damage_block_distinct a b]
  have l: "map_of (convertParamStat ?stat) key =
            (if key = str ''levelValues'' \<and> buildLevelValues ?stat \<noteq> []
             then Some (JObject (buildLevelValues ?stat))
             else (case map_of ?stat key of
                     Some e \<Rightarrow>
                       if (\<not> is_number e \<or> endsWith key (str ''Growth''))
                          \<and> key \<noteq> str ''__proto__''
                       then Some e else None
                   | None \<Rightarrow> None))" for key
    by blast
  have "map_of (convertParamStat ?stat) (str ''damage'') = None"
    by (subst l) (simp add: string_op_defs)
  moreover have "map_of (convertParamStat ?stat) (str ''format'') = Some (JString [])"
    by (subst l) (simp add: string_op_defs)
  ultimately show ?thesis
    using damage_block_distinct damage_block_not_processed by blast
qed

section \<open>The tag stripper\<close>

lemma match_tag_other: "c \<noteq> 60 \<Longrightarrow> match_tag (c # cs) = None"
  by (simp add: match_tag_def)

lemma match_tag_empty: "match_tag (60 # 62 # cs) = None"
  by (simp add: match_tag_def)

lemma match_tag_unclosed:
  assumes "62 \<notin> set cs"
  shows "match_tag (c # cs) = None"
proof -
  from assms have "dropWhile (\<lambda>x. x \<noteq> 62) cs = []" by auto
  then show ?thesis
    by (simp add: match_tag_def split: list.splits del: dropWhile_eq_Nil_conv)
qed

lemma match_tag_tag:
  assumes "content \<noteq> []" and "62 \<notin> set content"
  shows "match_tag (60 # content @ 62 # s) = Some (content, s)"
proof -
  from assms(2) have t: "takeWhile (\<lambda>x. x \<noteq> 62) (content @ 62 # s) = content"
    by (subst takeWhile_append2) auto
  from assms(2) have d: "dropWhile (\<lambda>x. x \<noteq> 62) (content @ 62 # s) = 62 # s"
    by (subst dropWhile_append2) auto
  from assms(1) obtain x xs where "content = x # xs" by (cases content) auto
  with t d show ?thesis by (simp add: match_tag_def)
qed

lemma strip_text: "no_open t \<Longrightarrow> stripHtmlTags (t @ s) = t @ stripHtmlTags s"
proof (induction t rule: no_open.induct)
  case 1
  then show ?case by simp
next
  case (2 c)
  then show ?case by (simp add: match_tag_other)
next
  case (3 c d cs)
  then have ih: "stripHtmlTags ((d # cs) @ s) = (d # cs) @ stripHtmlTags s" by simp
  show ?case
  proof (cases "c = 60")
    case True
    with 3 have "d = 62" by simp
    with True ih show ?thesis by (simp add: match_tag_empty)
  next
    case False
    with ih show ?thesis by (simp add: match_tag_other)
  qed
qed

lemma strip_tail: "62 \<notin> set s \<Longrightarrow> stripHtmlTags s = s"
  by (induction s) (simp_all add: match_tag_unclosed)

lemma strip_tag:
  assumes "content \<noteq> []" and "62 \<notin> set content"
  shows "stripHtmlTags ([60] @ content @ [62] @ s) =
     (if startsWith content (str ''IconMap:'') then [60] @ content @ [62] else [])
       @ stripHtmlTags s"
  using match_tag_tag [OF assms, of s] by simp

lemma strip_pieces:
  "well_formed ps \<Longrightarrow> 62 \<notin> set tail \<Longrightarrow>
     stripHtmlTags (render ps @ tail) = keep_icon_tags ps @ tail"
proof (induction ps rule: render.induct)
  case 1
  then show ?case by (simp add: strip_tail)
next
  case (2 t ps)
  then show ?case by (simp add: strip_text)
next
  case (3 content ps)
  then have "stripHtmlTags (render ps @ tail) = keep_icon_tags ps @ tail" by simp
  moreover from 3 have "content \<noteq> []" "62 \<notin> set content" by simp_all
  ultimately show ?case
    using strip_tag [of content "render ps @ tail"] by simp
qed

lemma pieces_exist: "\<exists>ps tail. well_formed ps \<and> 62 \<notin> set tail \<and> s = render ps @ tail"
proof (induction s rule: length_induct)
  case (1 s)
  show ?case
  proof (cases s)
    case Nil
    then show ?thesis by (intro exI [of _ "[]"]) simp
  next
    case (Cons c cs)
    show ?thesis
    proof (cases "c = 60 \<and> 62 \<notin> set cs")
      case True
      then have "well_formed [] \<and> 62 \<notin> set s \<and> s = render [] @ s"
        using Cons by simp
      then show ?thesis by blast
    next
      case open_or_closed: False
      show ?thesis
      proof (cases "c = 60")
        case False
        from 1 Cons obtain ps tail
          where "well_formed ps" "62 \<notin> set tail" "cs = render ps @ tail"
          by (metis length_Cons lessI)
        with False Cons
        have "well_formed (Text [c] # ps) \<and> 62 \<notin> set tail \<and> s = render (Text [c] # ps) @ tail"
          by simp
        then show ?thesis by blast
      next
        case True
        with open_or_closed have "62 \<in> set cs" by simp
        then obtain content rest where cs: "cs = content @ 62 # rest" and n: "62 \<notin> set content"
          by (meson split_list_first)
        have "length rest < length s" using Cons cs by simp
        with 1 obtain ps tail
          where r: "well_formed ps" "62 \<notin> set tail" "rest = render ps @ tail"
          by blast
        show ?thesis
        proof (cases "content = []")
          case True
          with r cs Cons \<open>c = 60\<close>
          have "well_formed (Text [60, 62] # ps) \<and> 62 \<notin> set tail
              \<and> s = render (Text [60, 62] # ps) @ tail"
            by simp
          then show ?thesis by blast
        next
          case False
          with r cs n Cons \<open>c = 60\<close>
          have "well_formed (Tag content # ps) \<and> 62 \<notin> set tail
              \<and> s = render (Tag content # ps) @ tail"
            by simp
          then show ?thesis by blast
        qed
      qed
    qed
  qed
qed

text \<open>
  What the normalizer does on the leaves. It leaves \<^verbatim>\<open>undefined\<close>, \<^verbatim>\<open>null\<close>, a boolean and a
  number unchanged, and it goes through arrays. On a string it deletes the matches of the
  tag pattern whose content does not begin with \<^verbatim>\<open>IconMap:\<close> and keeps the text, the other
  matches and the tail (the lemmas \<open>strip_pieces\<close> and \<open>pieces_exist\<close>). So it does what the
  spec asks for on every string in which no \<^verbatim>\<open><\<close> stands between a \<^verbatim>\<open><\<close> and the next \<^verbatim>\<open>>\<close>: there
  the matches of the pattern are the tags.
\<close>

lemma normalizeKeys_scalars:
  "normalizeKeys JUndefined = JUndefined"
  "normalizeKeys JNull = JNull"
  "normalizeKeys (JBool b) = JBool b"
  "normalizeKeys (JNumber n) = JNumber n"
  "normalizeKeys (JArray xs) = JArray (map normalizeKeys xs)"
  by simp_all

lemma normalizeKeys_plain_tags:
  assumes "well_formed ps" and "\<forall>content. Tag content \<in> set ps \<longrightarrow> 60 \<notin> set content"
    and "62 \<notin> set tail"
  shows "normalizeKeys (JString (render ps @ tail)) = JString (keep_icon_tags ps @ tail)"
  using strip_pieces [OF assms(1,3)] by simp

lemma normalizeKeys_plain_tags_example:
  "normalizeKeys (JString (str ''a<b>c<IconMap:x>d<'')) = JString (str ''ac<IconMap:x>d<'')"
  by (simp add: match_tag_def string_op_defs)

text \<open>
  Claim C8 fails on a string in which a \<^verbatim>\<open><\<close> that opens no tag stands before a tag: the
  pattern \<^verbatim>\<open>/<([^>]+)>/g\<close> lets the content run over a \<^verbatim>\<open><\<close>, so the match begins at the first
  \<^verbatim>\<open><\<close> and the tag is only the end of its content. In \<^verbatim>\<open>HP<50 <IconMap:Icon_Normal> ok\<close> the
  only tag is \<^verbatim>\<open><IconMap:Icon_Normal>\<close>, whose content begins with the reserved prefix; the
  normalizer returns \<^verbatim>\<open>HP ok\<close>, on the string itself and on the string as an element of an
  array: the tag is deleted, with the text \<^verbatim>\<open><50 \<close> before it.
\<close>

theorem normalizeKeys_icon_tag_lost:
  "normalizeKeys (JString (str ''HP<50 <IconMap:Icon_Normal> ok'')) = JString (str ''HP ok'')
   \<and> normalizeKeys (JArray [JString (str ''HP<50 <IconMap:Icon_Normal> ok'')])
       = JArray [JString (str ''HP ok'')]"
  by (simp add: match_tag_def string_op_defs)

section \<open>The tag stripper is idempotent\<close>

lemma render_kept: "render (kept ps) = keep_icon_tags ps"
  by (induction ps rule: kept.induct) simp_all

lemma well_formed_kept: "well_formed ps \<Longrightarrow> well_formed (kept ps)"
  by (induction ps rule: kept.induct) simp_all

lemma keep_icon_tags_kept: "keep_icon_tags (kept ps) = keep_icon_tags ps"
  by (induction ps rule: kept.induct) simp_all

lemma stripHtmlTags_idem: "stripHtmlTags (stripHtmlTags s) = stripHtmlTags s"
proof -
  from pieces_exist [of s] obtain ps tail
    where w: "well_formed ps" and t: "62 \<notin> set tail" and s: "s = render ps @ tail"
    by blast
  have "stripHtmlTags s = render (kept ps) @ tail"
    unfolding s by (simp only: strip_pieces [OF w t] render_kept)
  moreover have "stripHtmlTags (render (kept ps) @ tail) = keep_icon_tags (kept ps) @ tail"
    by (rule strip_pieces [OF well_formed_kept [OF w] t])
  ultimately show ?thesis by (simp add: keep_icon_tags_kept render_kept)
qed

section \<open>The key rewriting is idempotent on ASCII keys\<close>

lemma line_terminator_not_alnum: "is_line_terminator c \<Longrightarrow> \<not> is_alnum c"
  by (auto simp: char_class_defs)

lemma last_dot_None: "last_dot cs = None \<longleftrightarrow> (\<forall>x \<in> set cs. is_line_terminator x)"
  by (induction cs) (auto split: option.splits)

lemma last_dot_Some:
  "last_dot cs = Some (d, rest) \<Longrightarrow>
     \<not> is_line_terminator d \<and> (\<forall>x \<in> set rest. is_line_terminator x)"
proof (induction cs)
  case Nil
  then show ?case by simp
next
  case (Cons c cs)
  show ?case
  proof (cases "last_dot cs")
    case None
    with Cons.prems have "\<not> is_line_terminator c" "d = c" "rest = cs"
      by (auto split: if_splits)
    with None show ?thesis by (simp add: last_dot_None)
  next
    case (Some r)
    with Cons show ?thesis by simp
  qed
qed

lemma match_sep_alnum: "is_alnum c \<Longrightarrow> match_sep (c # cs) = None"
  by (simp add: match_sep_def)

lemma match_sep_terminators:
  assumes "\<forall>x \<in> set cs. is_line_terminator x"
  shows "match_sep (c # cs) = None"
proof (cases "is_alnum c")
  case True
  then show ?thesis by (rule match_sep_alnum)
next
  case False
  from assms have n: "\<forall>x \<in> set cs. \<not> is_alnum x"
    by (auto dest: line_terminator_not_alnum)
  then have "takeWhile (\<lambda>c. \<not> is_alnum c) (c # cs) = c # cs"
    and "dropWhile (\<lambda>c. \<not> is_alnum c) (c # cs) = []"
    using False by simp_all
  moreover from assms have "last_dot cs = None" by (simp add: last_dot_None)
  ultimately show ?thesis by (simp only: match_sep_def list.case)
qed

lemma match_sep_None:
  assumes "match_sep (c # cs) = None"
  shows "is_alnum c \<or> (\<forall>x \<in> set cs. is_line_terminator x)"
proof (cases "is_alnum c")
  case True
  then show ?thesis by simp
next
  case False
  then have t: "takeWhile (\<lambda>c. \<not> is_alnum c) (c # cs) = c # takeWhile (\<lambda>c. \<not> is_alnum c) cs"
    and d: "dropWhile (\<lambda>c. \<not> is_alnum c) (c # cs) = dropWhile (\<lambda>c. \<not> is_alnum c) cs"
    by simp_all
  show ?thesis
  proof (cases "dropWhile (\<lambda>c. \<not> is_alnum c) cs")
    case Nil
    then have "takeWhile (\<lambda>c. \<not> is_alnum c) cs = cs" by (metis takeWhile_dropWhile_id append_Nil2)
    with assms t d Nil have "last_dot cs = None"
      by (simp only: match_sep_def list.case)
    then show ?thesis by (simp add: last_dot_None)
  next
    case (Cons x xs)
    with assms t d show ?thesis by (simp only: match_sep_def list.case) simp
  qed
qed

lemma match_sep_Some:
  assumes "match_sep s = Some (d, rest)"
  shows "(is_alnum d \<or> (\<not> is_alnum d \<and> (\<forall>x \<in> set rest. is_line_terminator x)))
     \<and> (\<exists>pre. s = pre @ d # rest)"
proof -
  let ?run = "takeWhile (\<lambda>c. \<not> is_alnum c) s"
  let ?tl = "dropWhile (\<lambda>c. \<not> is_alnum c) s"
  have s: "s = ?run @ ?tl" by simp
  from assms obtain r run where r: "?run = r # run"
    by (cases ?run) (simp_all add: match_sep_def)
  show ?thesis
  proof (cases ?tl)
    case (Cons d' rest')
    with assms r have e: "d' = d" "rest' = rest" by (simp_all add: match_sep_def)
    from Cons have "?tl \<noteq> []" by simp
    then have "\<not> \<not> is_alnum (hd ?tl)" by (rule hd_dropWhile)
    with Cons e have "is_alnum d" by simp
    moreover from s Cons e have "s = ?run @ d # rest" by simp
    ultimately show ?thesis by blast
  next
    case Nil
    with assms r have l: "last_dot run = Some (d, rest)"
      by (simp add: match_sep_def del: dropWhile_eq_Nil_conv)
    from last_dot_split [OF l] obtain pre where p: "run = pre @ d # rest" by blast
    have "d \<in> set ?run" using r p by simp
    then have "\<not> is_alnum d" by (rule set_takeWhileD [THEN conjunct2])
    moreover from last_dot_Some [OF l] have "\<forall>x \<in> set rest. is_line_terminator x" by simp
    moreover from s Nil r p have "s = (r # pre) @ d # rest" by simp
    ultimately show ?thesis by blast
  qed
qed

lemma replace_sep_nomatch: "nomatch s \<Longrightarrow> replace_sep s = s"
  by (induction s) simp_all

lemma nomatch_terminators: "(\<forall>x \<in> set s. is_line_terminator x) \<Longrightarrow> nomatch s"
  by (induction s) (simp_all add: match_sep_terminators)

lemma toUpperCase_ascii:
  "c < 128 \<Longrightarrow> toUpperCase [c] = [if is_lower c then c - 32 else c]"
  by (simp add: toUpperCase_def charToUpper_def)

lemma replace_sep_ascii_nomatch:
  "(\<forall>x \<in> set s. x < 128) \<Longrightarrow> nomatch (replace_sep s)"
proof (induction s rule: replace_sep.induct)
  case 1
  then show ?case by simp
next
  case (2 c cs)
  show ?case
  proof (cases "match_sep (c # cs)")
    case None
    with 2 have ih: "nomatch (replace_sep cs)" by simp
    from match_sep_None [OF None] show ?thesis
    proof
      assume "is_alnum c"
      with None ih show ?thesis by (simp add: match_sep_alnum)
    next
      assume t: "\<forall>x \<in> set cs. is_line_terminator x"
      then have "replace_sep cs = cs" by (simp add: replace_sep_nomatch nomatch_terminators)
      with None ih show ?thesis by simp
    qed
  next
    case (Some m)
    obtain d rest where m: "m = (d, rest)" by (cases m)
    from match_sep_Some [OF Some [unfolded m]] obtain pre
      where k: "is_alnum d \<or> (\<not> is_alnum d \<and> (\<forall>x \<in> set rest. is_line_terminator x))"
        and p: "c # cs = pre @ d # rest"
      by blast
    from p "2.prems" have a: "d < 128" "\<forall>x \<in> set rest. x < 128"
      by (metis in_set_conv_decomp, metis Un_iff list.set_intros(2) set_append)
    from 2 Some m a have ih: "nomatch (replace_sep rest)" by simp
    have r: "replace_sep (c # cs) = (if is_lower d then d - 32 else d) # replace_sep rest"
      using Some m a by (simp add: toUpperCase_ascii)
    from k show ?thesis
    proof
      assume "is_alnum d"
      then have "is_alnum (if is_lower d then d - 32 else d)"
        by (auto simp: char_class_defs)
      with ih show ?thesis unfolding r by (simp add: match_sep_alnum)
    next
      assume n: "\<not> is_alnum d \<and> (\<forall>x \<in> set rest. is_line_terminator x)"
      then have "replace_sep rest = rest" by (simp add: replace_sep_nomatch nomatch_terminators)
      moreover from n have "\<not> is_lower d" by (simp add: is_alnum_def)
      ultimately show ?thesis
        unfolding r using n by (simp add: match_sep_terminators nomatch_terminators)
    qed
  qed
qed
lemma nomatch_lower_first: "nomatch s \<Longrightarrow> nomatch (lower_first s)"
proof (cases s)
  case Nil
  then show ?thesis by simp
next
  case (Cons c cs)
  assume "nomatch s"
  with Cons have n: "match_sep (c # cs) = None" "nomatch cs" by simp_all
  show ?thesis
  proof (cases "is_upper c")
    case True
    then have "is_alnum (c + 32)" by (auto simp: char_class_defs)
    with True n Cons show ?thesis
      by (simp add: toLowerCase_def charToLower_def match_sep_alnum)
  next
    case False
    with n Cons show ?thesis by simp
  qed
qed

lemma lower_first_idem: "lower_first (lower_first s) = lower_first s"
  by (cases s) (auto simp: toLowerCase_def charToLower_def is_upper_def)

lemma toLowerCamelCase_idem:
  assumes "\<forall>x \<in> set key. x < 128"
  shows "toLowerCamelCase (toLowerCamelCase key) = toLowerCamelCase key"
proof -
  have "nomatch (lower_first (replace_sep key))"
    by (intro nomatch_lower_first replace_sep_ascii_nomatch assms)
  then have "replace_sep (lower_first (replace_sep key)) = lower_first (replace_sep key)"
    by (rule replace_sep_nomatch)
  then show ?thesis by (simp add: toLowerCamelCase_def lower_first_idem)
qed

section \<open>The normalizer is idempotent on values with ASCII keys\<close>

text \<open>An object that its own entries, assigned one after the other, build again.\<close>

lemma keys_update: "fst ` set (AList.update k v obj) = insert k (fst ` set obj)"
proof -
  have "set (map fst (AList.update k v obj)) = insert k (set (map fst obj))"
    by (auto simp: update_keys)
  then show ?thesis by simp
qed

lemma set_update_subset: "set (AList.update k v obj) \<subseteq> insert (k, v) (set obj)"
  by (induction obj) auto

lemma update_absent: "k \<notin> fst ` set obj \<Longrightarrow> AList.update k v obj = obj @ [(k, v)]"
  by (induction obj) auto

lemma fold_assign_self:
  "distinct (map fst (acc @ obj)) \<Longrightarrow> str ''__proto__'' \<notin> fst ` set obj \<Longrightarrow>
     fold (\<lambda>(k, e) acc. assign k e acc) obj acc = acc @ obj"
proof (induction obj arbitrary: acc)
  case Nil
  then show ?case by simp
next
  case (Cons x obj)
  obtain k e where x: "x = (k, e)" by (cases x)
  from Cons.prems x have a: "assign k e acc = acc @ [(k, e)]"
    by (auto simp: assign_def intro!: update_absent)
  from Cons.prems x have "distinct (map fst ((acc @ [(k, e)]) @ obj))"
    and "str ''__proto__'' \<notin> fst ` set obj"
    by auto
  then have "fold (\<lambda>(k, e) acc. assign k e acc) obj (acc @ [(k, e)]) = (acc @ [(k, e)]) @ obj"
    by (rule Cons.IH)
  with a x show ?case by simp
qed

text \<open>What the loop of the normalizer builds, for any rewriting of the keys and values.\<close>

lemma fold_assign_built:
  fixes f :: "jsstring \<Rightarrow> jsstring" and g :: "json \<Rightarrow> json"
  assumes "distinct (map fst acc)" and "str ''__proto__'' \<notin> fst ` set acc"
    and "\<forall>(k', e') \<in> set acc. \<exists>(k, e) \<in> set kvs0. k' = f k \<and> e' = g e"
    and "set kvs \<subseteq> set kvs0"
  shows "distinct (map fst (fold (\<lambda>(k, e) acc. assign (f k) (g e) acc) kvs acc))
     \<and> str ''__proto__'' \<notin> fst ` set (fold (\<lambda>(k, e) acc. assign (f k) (g e) acc) kvs acc)
     \<and> (\<forall>(k', e') \<in> set (fold (\<lambda>(k, e) acc. assign (f k) (g e) acc) kvs acc).
           \<exists>(k, e) \<in> set kvs0. k' = f k \<and> e' = g e)"
  using assms
proof (induction kvs arbitrary: acc)
  case Nil
  then show ?case by simp
next
  case (Cons x kvs)
  obtain k e where x: "x = (k, e)" by (cases x)
  let ?acc = "assign (f k) (g e) acc"
  have 1: "distinct (map fst ?acc)"
    using Cons.prems(1) by (simp add: assign_def distinct_update)
  have 2: "str ''__proto__'' \<notin> fst ` set ?acc"
    using Cons.prems(2) by (simp add: assign_def keys_update)
  have m: "(k, e) \<in> set kvs0" using Cons.prems(4) x by simp
  have 3: "\<forall>(k', e') \<in> set ?acc. \<exists>(k, e) \<in> set kvs0. k' = f k \<and> e' = g e"
  proof (clarify)
    fix a b assume "(a, b) \<in> set ?acc"
    then have "(a, b) = (f k, g e) \<or> (a, b) \<in> set acc"
      using set_update_subset [of "f k" "g e" acc]
      by (auto simp: assign_def split: if_splits)
    then show "\<exists>(k, e) \<in> set kvs0. a = f k \<and> b = g e"
    proof
      assume "(a, b) = (f k, g e)"
      with m show ?thesis by auto
    next
      assume "(a, b) \<in> set acc"
      with Cons.prems(3) show ?thesis by auto
    qed
  qed
  have 4: "set kvs \<subseteq> set kvs0" using Cons.prems(4) by simp
  from Cons.IH [OF 1 2 3 4] show ?case by (simp add: x)
qed

text \<open>
  Claim C5, as the spec states it, fails on a key in which a separator is followed, at
  the end of the key, by a character whose upper case is more than one character. The
  key \<^verbatim>\<open>a_\<close> followed by U+0149 is rewritten to \<^verbatim>\<open>a\<close> followed by U+02BC and \<^verbatim>\<open>N\<close>; in that
  key U+02BC is a separator, and the second rewriting gives \<^verbatim>\<open>aN\<close>.
\<close>

theorem normalizeKeys_idempotent_counterexample:
  "normalizeKeys (normalizeKeys (JObject [([97, 95, 329], JNumber (Num 1))]))
     \<noteq> normalizeKeys (JObject [([97, 95, 329], JNumber (Num 1))])
   \<and> normalizeKeys (JObject [([97, 95, 329], JNumber (Num 1))]) = JObject [([97, 700, 78], JNumber (Num 1))]
   \<and> normalizeKeys (normalizeKeys (JObject [([97, 95, 329], JNumber (Num 1))]))
       = JObject [([97, 78], JNumber (Num 1))]"
  by (simp add: toLowerCamelCase_def match_sep_def assign_def char_class_defs string_op_defs)

text \<open>
  Claim C5, amended. For every JSON value whose object keys are ASCII strings, applying
  the normalizer twice yields the same result as applying it once.
\<close>

theorem normalizeKeys_idempotent:
  "ascii_keys v \<Longrightarrow> normalizeKeys (normalizeKeys v) = normalizeKeys v"
proof (induction v rule: normalizeKeys.induct)
  case (1 s)
  show ?case by (simp add: stripHtmlTags_idem)
next
  case (2 xs)
  then have "\<forall>x \<in> set xs. normalizeKeys (normalizeKeys x) = normalizeKeys x" by simp
  then show ?case by simp
next
  case (3 kvs)
  define built where
    "built = fold (\<lambda>(key, entry) normalized.
                     assign (toLowerCamelCase key) (normalizeKeys entry) normalized) kvs []"
  have b: "distinct (map fst built) \<and> str ''__proto__'' \<notin> fst ` set built
     \<and> (\<forall>(k', e') \<in> set built.
           \<exists>(k, e) \<in> set kvs. k' = toLowerCamelCase k \<and> e' = normalizeKeys e)"
    unfolding built_def
    by (rule fold_assign_built [of "[]" kvs toLowerCamelCase normalizeKeys kvs]) simp_all
  have same: "(case x of (key, entry) \<Rightarrow> \<lambda>normalized.
                  assign (toLowerCamelCase key) (normalizeKeys entry) normalized)
      = (case x of (k, e) \<Rightarrow> \<lambda>acc. assign k e acc)"
    if x: "x \<in> set built" for x
  proof -
    obtain k' e' where p: "x = (k', e')" by (cases x)
    with b x obtain k e where m: "(k, e) \<in> set kvs"
      and k': "k' = toLowerCamelCase k" and e': "e' = normalizeKeys e"
      by blast
    from "3.prems" m have a: "\<forall>c \<in> set k. c < 128" "ascii_keys e" by auto
    from a(1) have "toLowerCamelCase k' = k'"
      unfolding k' by (rule toLowerCamelCase_idem)
    moreover from "3.IH" [OF m refl a(2)] have "normalizeKeys e' = e'"
      unfolding e' .
    ultimately show ?thesis by (simp add: p)
  qed
  have "fold (\<lambda>(key, entry) normalized.
                assign (toLowerCamelCase key) (normalizeKeys entry) normalized) built []
      = fold (\<lambda>(k, e) acc. assign k e acc) built []"
    by (rule fold_cong) (simp_all add: same)
  also have "\<dots> = [] @ built"
    using b by (intro fold_assign_self) simp_all
  finally have "normalizeKeys (JObject built) = JObject built" by simp
  then show ?case by (simp add: built_def)
qed simp_all

lemma skill_block_ascii:
  "ascii_keys (JObject [(str ''Skill_List'', JArray [JObject [(str ''Desc'', JString (str ''<b>x''))]])])"
  by (simp add: str_def)

lemma skill_block_normalized:
  "normalizeKeys (JObject [(str ''Skill_List'', JArray [JObject [(str ''Desc'', JString (str ''<b>x''))]])])
     = JObject [(str ''skillList'', JArray [JObject [(str ''desc'', JString (str ''x''))]])]"
  by (simp add: toLowerCamelCase_def match_sep_def match_tag_def assign_def char_class_defs
        string_op_defs)

theorem normalizeKeys_idempotent_witness:
  "ascii_keys (JObject [(str ''Skill_List'', JArray [JObject [(str ''Desc'', JString (str ''<b>x''))]])])
   \<and> normalizeKeys (JObject [(str ''skillList'', JArray [JObject [(str ''desc'', JString (str ''x''))]])])
       = JObject [(str ''skillList'', JArray [JObject [(str ''desc'', JString (str ''x''))]])]"
  using normalizeKeys_idempotent [OF skill_block_ascii] skill_block_ascii
  by (simp only: skill_block_normalized simp_thms)

section \<open>Key normalization can merge keys\<close>

lemma camel_Foo_Bar: "toLowerCamelCase (str ''Foo_Bar'') = str ''fooBar''"
  by (simp add: toLowerCamelCase_def match_sep_def char_class_defs string_op_defs)

lemma camel_FooBar: "toLowerCamelCase (str ''FooBar'') = str ''fooBar''"
  by (simp add: toLowerCamelCase_def match_sep_def char_class_defs string_op_defs)

lemma fooBar_not_proto: "str ''fooBar'' \<noteq> str ''__proto__''"
  by (simp add: str_def)

lemma keys_Foo_distinct: "str ''Foo_Bar'' \<noteq> str ''FooBar''"
  by (simp add: str_def)

text \<open>
  Claim C10. The distinct keys \<^verbatim>\<open>Foo_Bar\<close> and \<^verbatim>\<open>FooBar\<close> both rewrite to \<^verbatim>\<open>fooBar\<close>, and
  the object that holds them in this order, with any values \<open>a\<close> and \<open>b\<close>, is normalized
  to an object with the single key \<^verbatim>\<open>fooBar\<close>, whose value is the normalized value of the
  later entry: the output has one key where the input has two.
\<close>

theorem normalizeKeys_merges_keys:
  "str ''Foo_Bar'' \<noteq> str ''FooBar''
   \<and> toLowerCamelCase (str ''Foo_Bar'') = str ''fooBar''
   \<and> toLowerCamelCase (str ''FooBar'') = str ''fooBar''
   \<and> normalizeKeys (JObject [(str ''Foo_Bar'', a), (str ''FooBar'', b)])
       = JObject [(str ''fooBar'', normalizeKeys b)]"
  by (simp add: camel_Foo_Bar camel_FooBar fooBar_not_proto keys_Foo_distinct assign_def)

theorem normalizeKeys_merges_keys_witness:
  "normalizeKeys (JObject [(str ''Foo_Bar'', JNumber (Num 1)), (str ''FooBar'', JNumber (Num 2))])
     = JObject [(str ''fooBar'', JNumber (Num 2))]"
proof -
  have "normalizeKeys (JObject [(str ''Foo_Bar'', JNumber (Num 1)), (str ''FooBar'', JNumber (Num 2))])
     = JObject [(str ''fooBar'', normalizeKeys (JNumber (Num 2)))]"
    using normalizeKeys_merges_keys [of "JNumber (Num 1)" "JNumber (Num 2)"] by blast
  then show ?thesis by (simp only: normalizeKeys.simps)
qed

end
